theory Spec2Isabelle
  imports Main
begin

section \<open>The constants of shell.h\<close>

text \<open>
  \<^verbatim>\<open>shell.c\<close> includes \<^verbatim>\<open>shell.h\<close>, which declares the \<^verbatim>\<open>command\<close> struct and
  defines the macros \<^verbatim>\<open>MAX_LINE_SIZE\<close>, \<^verbatim>\<open>MAX_ARG_LEN\<close>, \<^verbatim>\<open>SUCCESS\<close> and \<^verbatim>\<open>ERROR\<close>.
  Their values are not visible from \<^verbatim>\<open>shell.c\<close>, so every function below takes them
  as a parameter \<open>h\<close>. The two sizes are the sizes of arrays (\<^verbatim>\<open>new char[MAX_ARG_LEN]\<close>,
  \<^verbatim>\<open>char full_path[MAX_LINE_SIZE]\<close>) and hence positive; the definitions below compute
  \<^verbatim>\<open>MAX_ARG_LEN - 1\<close> and \<^verbatim>\<open>MAX_LINE_SIZE - 1\<close> for such sizes, and the theorems about
  the buffers assume them positive.
\<close>

record shell_h =
  MAX_LINE_SIZE :: int
  MAX_ARG_LEN :: int
  SUCCESS :: int
  ERROR :: int

section \<open>C strings\<close>

text \<open>
  A buffer is the list of its bytes. The C string held in a buffer is the bytes before
  the first terminator; \<^verbatim>\<open>strlen\<close>, \<^verbatim>\<open>strcpy\<close>, \<^verbatim>\<open>strcmp\<close>, \<^verbatim>\<open>strtok\<close> and the
  \<^verbatim>\<open>%s\<close> conversion all read a buffer that way.
\<close>

definition NUL :: char where
  "NUL = CHR 0x00"

definition cstring :: "char list \<Rightarrow> string" where
  "cstring buf = takeWhile (\<lambda>c. c \<noteq> NUL) buf"

definition strlen :: "char list \<Rightarrow> nat" where
  "strlen buf = length (cstring buf)"

text \<open>\<^verbatim>\<open>strcpy(dst, src)\<close> into a destination of \<^verbatim>\<open>strlen(src) + 1\<close> bytes: the bytes
  the destination holds afterwards.\<close>

definition strcpy :: "char list \<Rightarrow> char list" where
  "strcpy src = cstring src @ [NUL]"

text \<open>\<^verbatim>\<open>strncpy(dst, src, n)\<close>: the first \<open>n\<close> bytes of \<open>dst\<close> become the first \<open>n\<close>
  characters of the string in \<open>src\<close>, padded with terminators when the string is
  shorter; the bytes of \<open>dst\<close> from \<open>n\<close> on are left as they were. A result longer
  than \<open>dst\<close> would be a write past the end of the buffer.\<close>

definition strncpy :: "char list \<Rightarrow> char list \<Rightarrow> nat \<Rightarrow> char list" where
  "strncpy dst src n =
     take n (cstring src) @ replicate (n - strlen src) NUL @ drop n dst"

text \<open>\<^verbatim>\<open>strcmp(a, b) == 0\<close>, the only use \<^verbatim>\<open>shell.c\<close> makes of \<^verbatim>\<open>strcmp\<close>.\<close>

definition strcmp_eq :: "char list \<Rightarrow> char list \<Rightarrow> bool" where
  "strcmp_eq a b = (cstring a = cstring b)"

text \<open>
  \<^verbatim>\<open>strtok\<close> keeps a save pointer into the buffer it scans. The model passes the
  unread rest of the string (the characters from the save pointer to the terminator)
  explicitly: \<open>strtok delim rest\<close> skips the leading delimiters; when nothing is left
  it returns no token; otherwise the token runs to the next delimiter, which the call
  overwrites with a terminator, and the save pointer moves behind it (or stays at the
  end of the string when the token was the last thing in it).
\<close>

definition strtok :: "string \<Rightarrow> string \<Rightarrow> string option \<times> string" where
  "strtok delim rest =
     (let s = dropWhile (\<lambda>c. c \<in> set delim) rest in
      if s = [] then (None, [])
      else (Some (takeWhile (\<lambda>c. c \<notin> set delim) s),
            drop 1 (dropWhile (\<lambda>c. c \<notin> set delim) s)))"

text \<open>The measure by which every loop over \<open>strtok\<close> terminates: nothing once the
  current token is \<^verbatim>\<open>NULL\<close>, otherwise the characters still unread.\<close>

fun tok_left :: "string option \<times> string \<Rightarrow> nat" where
  "tok_left (None, rest) = 0"
| "tok_left (Some t, rest) = Suc (length rest)"

lemma dropWhile_hd_not:
  "dropWhile P xs = y # ys \<Longrightarrow> \<not> P y"
  by (metis hd_dropWhile list.sel(1) list.distinct(1))

lemma strtok_None:
  "dropWhile (\<lambda>c. c \<in> set delim) rest = [] \<Longrightarrow> strtok delim rest = (None, [])"
  by (simp add: strtok_def)

lemma strtok_Some:
  assumes "dropWhile (\<lambda>c. c \<in> set delim) rest = c # cs"
  shows "strtok delim rest =
           (Some (c # takeWhile (\<lambda>c. c \<notin> set delim) cs),
            drop 1 (dropWhile (\<lambda>c. c \<notin> set delim) cs))"
proof -
  from assms have "c \<notin> set delim" by (rule dropWhile_hd_not)
  with assms show ?thesis by (simp add: strtok_def)
qed

lemma strtok_rest_shorter:
  assumes "strtok delim rest = (Some t, rest')"
  shows "length rest' < length rest"
proof (cases "dropWhile (\<lambda>c. c \<in> set delim) rest")
  case Nil
  with assms show ?thesis by (simp add: strtok_None)
next
  case (Cons c cs)
  with assms have "rest' = drop 1 (dropWhile (\<lambda>c. c \<notin> set delim) cs)"
    by (simp add: strtok_Some)
  moreover have "length (dropWhile (\<lambda>c. c \<notin> set delim) cs) \<le> length cs"
    by (rule length_dropWhile_le)
  ultimately have "length rest' \<le> length cs"
    by simp
  moreover have "length (c # cs) \<le> length rest"
    unfolding Cons [symmetric] by (rule length_dropWhile_le)
  ultimately show ?thesis by simp
qed

lemma strtok_tok_left:
  "tok_left (strtok delim rest) < Suc (length rest)"
proof (cases "strtok delim rest")
  case (Pair t r)
  then show ?thesis
    by (cases t) (auto dest: strtok_rest_shorter)
qed

text \<open>All the tokens that successive calls of \<open>strtok\<close> return, from a current token
  and a save pointer on: the sequence a \<^verbatim>\<open>while (currentToken != NULL)\<close> loop sees.\<close>

function tokens_from :: "string \<Rightarrow> string option \<times> string \<Rightarrow> string list" where
  "tokens_from delim (None, rest) = []"
| "tokens_from delim (Some t, rest) = t # tokens_from delim (strtok delim rest)"
  by pat_completeness auto
termination
  by (relation "measure (\<lambda>(delim, st). tok_left st)") (auto simp: strtok_tok_left)

definition tokens :: "string \<Rightarrow> string \<Rightarrow> string list" where
  "tokens delim s = tokens_from delim (strtok delim s)"

section \<open>The command struct\<close>

text \<open>
  \<^verbatim>\<open>argv\<close> is an array of pointers: a slot is either \<^verbatim>\<open>NULL\<close> (\<open>None\<close>) or points to
  a buffer of its own. \<open>cmd\<close> itself is a pointer, so functions take a
  \<open>command option\<close>.
\<close>

record command =
  argc :: int
  argv :: "char list option list"

text \<open>
  \<^verbatim>\<open>new char[MAX_ARG_LEN]\<close> does not initialise the buffer. Its bytes are whatever the
  allocator hands out: \<open>junk i k\<close> is byte \<open>k\<close> of the buffer allocated for slot \<open>i\<close>.
\<close>

type_synonym fresh_memory = "nat \<Rightarrow> nat \<Rightarrow> char"

text \<open>\<open>create_command\<close>: \<open>argc\<close> buffers of \<^verbatim>\<open>MAX_ARG_LEN\<close> bytes each and the
  \<^verbatim>\<open>NULL\<close> behind them. \<^verbatim>\<open>new\<close> throws when memory runs out and never returns
  \<^verbatim>\<open>NULL\<close>, so the result is always a command; \<open>parse\<close>, the only caller, passes a
  count that is not negative.\<close>

definition new_arg :: "shell_h \<Rightarrow> fresh_memory \<Rightarrow> nat \<Rightarrow> char list" where
  "new_arg h junk i = map (junk i) [0..<nat (MAX_ARG_LEN h)]"

definition create_command :: "shell_h \<Rightarrow> fresh_memory \<Rightarrow> int \<Rightarrow> command option" where
  "create_command h junk n =
     Some \<lparr>argc = n,
           argv = map (\<lambda>i. Some (new_arg h junk i)) [0..<nat n] @ [None]\<rparr>"

section \<open>parse\<close>

definition delimiters :: string where
  "delimiters = [CHR '' '', CHR 0x09, CHR 0x0A]"

text \<open>The counting loop: \<^verbatim>\<open>while (currentToken != NULL) { argc++; ... }\<close>. The
  counter is a C \<^verbatim>\<open>int\<close>, modelled by \<open>int\<close> without a bound: a line has at most as
  many tokens as characters (\<open>parse_argc_le_strlen\<close> below), so the counter stays in
  the range of \<^verbatim>\<open>int\<close> for every line of fewer than \<open>2\<^sup>3\<^sup>1\<close> characters.\<close>

function count_args :: "int \<Rightarrow> string option \<times> string \<Rightarrow> int" where
  "count_args n (None, rest) = n"
| "count_args n (Some t, rest) = count_args (n + 1) (strtok delimiters rest)"
  by pat_completeness auto
termination
  by (relation "measure (\<lambda>(n, st). tok_left st)") (auto simp: strtok_tok_left)

text \<open>Storing one token: \<^verbatim>\<open>strncpy(cmd->argv[i], currentToken, MAX_ARG_LEN - 1)\<close>,
  then \<^verbatim>\<open>cmd->argv[i][MAX_ARG_LEN - 1] = '\0'\<close>.\<close>

definition store_arg :: "shell_h \<Rightarrow> char list \<Rightarrow> string \<Rightarrow> char list" where
  "store_arg h buf tok =
     (strncpy buf tok (nat (MAX_ARG_LEN h - 1)))[nat (MAX_ARG_LEN h - 1) := NUL]"

text \<open>One round of the \<^verbatim>\<open>for\<close> loop that fills the slots; the state is the array,
  the current token and the save pointer.\<close>

definition fill_arg ::
  "shell_h \<Rightarrow> nat \<Rightarrow> char list option list \<times> string option \<times> string
     \<Rightarrow> char list option list \<times> string option \<times> string" where
  "fill_arg h i st =
     (case st of (av, currentToken, rest) \<Rightarrow>
        (case currentToken of
           None \<Rightarrow> (av, None, rest)
         | Some tok \<Rightarrow>
             (av[i := map_option (\<lambda>buf. store_arg h buf tok) (av ! i)],
              strtok delimiters rest)))"

text \<open>
  \<open>parse\<close>: \<^verbatim>\<open>NULL\<close> for a \<^verbatim>\<open>NULL\<close> line. Otherwise the line is copied and its tokens are
  counted; \<open>create_command\<close> allocates that many slots; the line is copied again
  (\<open>strtok\<close> has cut the first copy into pieces) and the \<^verbatim>\<open>for\<close> loop stores token
  \<open>i\<close> in slot \<open>i\<close>. The line itself is only read.
\<close>

definition parse :: "shell_h \<Rightarrow> fresh_memory \<Rightarrow> char list option \<Rightarrow> command option" where
  "parse h junk line =
     (case line of
        None \<Rightarrow> None
      | Some l \<Rightarrow>
          (let line_copy = strcpy l;
               n = count_args 0 (strtok delimiters (cstring line_copy))
           in case create_command h junk n of
                None \<Rightarrow> None
              | Some cmd \<Rightarrow>
                  (let line_copy = strcpy l;
                       filled = fold (fill_arg h) [0..<nat n]
                                  (argv cmd, strtok delimiters (cstring line_copy))
                   in Some (cmd\<lparr>argv := fst filled\<rparr>))))"

section \<open>The operating system\<close>

text \<open>
  What the system calls answer is a parameter \<open>w\<close>: the environment, the file system
  as \<^verbatim>\<open>stat\<close> sees it, which directories \<^verbatim>\<open>chdir\<close> accepts, what \<^verbatim>\<open>fork\<close>
  returns, whether \<^verbatim>\<open>execv\<close> can start a file, and the status \<^verbatim>\<open>waitpid\<close> reports.
  What the shell does to the outside is a trace of events.
\<close>

datatype file_type = Regular | Directory | CharDevice | BlockDevice | Fifo | Socket

text \<open>The status \<^verbatim>\<open>waitpid(pid, &status, 0)\<close> stores: the child exited with a code,
  or a signal killed it.\<close>

datatype wstatus = Exited nat | Signaled nat

fun WIFEXITED :: "wstatus \<Rightarrow> bool" where
  "WIFEXITED (Exited code) = True"
| "WIFEXITED (Signaled sig) = False"

text \<open>\<^verbatim>\<open>WEXITSTATUS\<close> reads bits 8 to 15 of the status, which are 0 for a child that a
  signal killed.\<close>

fun WEXITSTATUS :: "wstatus \<Rightarrow> nat" where
  "WEXITSTATUS (Exited code) = code"
| "WEXITSTATUS (Signaled sig) = 0"

definition S_ISREG :: "file_type \<Rightarrow> bool" where
  "S_ISREG m = (m = Regular)"

record world =
  getenv :: "string \<Rightarrow> char list option"
  stat :: "string \<Rightarrow> file_type option"
  chdir_ok :: "string \<Rightarrow> bool"
  fork :: int
  execv_ok :: "string \<Rightarrow> bool"
  waitpid :: "int \<Rightarrow> wstatus option"

datatype event =
    Stat string
  | Chdir "string option"
  | Fork
  | Execv string "string list"
  | Waitpid int
  | Stdout string
  | Stderr string
  | Perror string

text \<open>
  How a call ends: it returns a value; or the process ends in \<^verbatim>\<open>exit\<close>; or \<^verbatim>\<open>execv\<close>
  replaces the process image; or the call reads through a \<^verbatim>\<open>NULL\<close> pointer or past
  the end of \<open>argv\<close>, which is undefined behaviour.
\<close>

datatype 'a outcome = Return 'a | Exit int | Exec string "string list" | Fault

definition EXIT_FAILURE :: int where
  "EXIT_FAILURE = 1"

text \<open>\<^verbatim>\<open>chdir(path)\<close> returns 0 when the directory was changed and -1 otherwise; a
  \<^verbatim>\<open>NULL\<close> path fails.\<close>

definition chdir :: "world \<Rightarrow> char list option \<Rightarrow> int" where
  "chdir w path =
     (case path of
        None \<Rightarrow> - 1
      | Some p \<Rightarrow> if chdir_ok w (cstring p) then 0 else - 1)"

text \<open>\<^verbatim>\<open>cmd->argv[i]\<close>: \<open>None\<close> when the array has no slot \<open>i\<close>.\<close>

definition slot :: "command \<Rightarrow> nat \<Rightarrow> char list option option" where
  "slot c i = (if i < length (argv c) then Some (argv c ! i) else None)"

text \<open>The shape \<open>create_command\<close> gives a command and every function keeps:
  \<open>argc\<close> buffers, then the \<^verbatim>\<open>NULL\<close> that ends the array.\<close>

definition wf_command :: "command \<Rightarrow> bool" where
  "wf_command c =
     (argv c \<noteq> [] \<and> int (length (argv c)) = argc c + 1
      \<and> list_all (\<lambda>a. a \<noteq> None) (butlast (argv c)) \<and> last (argv c) = None)"

section \<open>find_full_path\<close>

text \<open>\<^verbatim>\<open>snprintf(full_path, sizeof(full_path), "%s/%s", currentToken, cmd->argv[0])\<close>
  with \<^verbatim>\<open>char full_path[MAX_LINE_SIZE]\<close>: at most \<^verbatim>\<open>MAX_LINE_SIZE - 1\<close> characters
  of the formatted text are written, then a terminator.\<close>

definition snprintf_path :: "shell_h \<Rightarrow> string \<Rightarrow> char list \<Rightarrow> char list" where
  "snprintf_path h dir a0 =
     take (nat (MAX_LINE_SIZE h) - 1) (dir @ ''/'' @ cstring a0) @ [NUL]"

text \<open>\<^verbatim>\<open>stat(full_path, &buffer) == 0 && S_ISREG(buffer.st_mode)\<close>\<close>

definition is_regular_file :: "world \<Rightarrow> char list \<Rightarrow> bool" where
  "is_regular_file w full_path =
     (case stat w (cstring full_path) of None \<Rightarrow> False | Some m \<Rightarrow> S_ISREG m)"

text \<open>The \<^verbatim>\<open>while (currentToken != NULL)\<close> loop over the directories. It returns the
  new buffer for \<^verbatim>\<open>argv[0]\<close> when a directory matched, and the \<^verbatim>\<open>stat\<close> calls made.\<close>

function path_loop ::
  "shell_h \<Rightarrow> world \<Rightarrow> char list \<Rightarrow> string option \<times> string
     \<Rightarrow> char list option \<times> event list" where
  "path_loop h w a0 (None, rest) = (None, [])"
| "path_loop h w a0 (Some currentToken, rest) =
     (let full_path = snprintf_path h currentToken a0 in
      if is_regular_file w full_path
      then (Some (strcpy full_path), [Stat (cstring full_path)])
      else (case path_loop h w a0 (strtok '':'' rest) of
              (found, evs) \<Rightarrow> (found, Stat (cstring full_path) # evs)))"
  by pat_completeness auto
termination
  by (relation "measure (\<lambda>(h, w, a0, st). tok_left st)") (auto simp: strtok_tok_left)

definition find_full_path ::
  "shell_h \<Rightarrow> world \<Rightarrow> command option \<Rightarrow> bool outcome \<times> command option \<times> event list" where
  "find_full_path h w cmd =
     (case cmd of
        None \<Rightarrow> (Return False, cmd, [])
      | Some c \<Rightarrow>
          (case slot c 0 of
             None \<Rightarrow> (Fault, cmd, [])
           | Some None \<Rightarrow> (Return False, cmd, [])
           | Some (Some a0) \<Rightarrow>
               (case getenv w ''PATH'' of
                  None \<Rightarrow> (Return False, cmd, [Perror ''getenv failed''])
                | Some path_env \<Rightarrow>
                    (let path_copy = strcpy path_env in
                     case path_loop h w a0 (strtok '':'' (cstring path_copy)) of
                       (Some full_path, evs) \<Rightarrow>
                         (Return True, Some (c\<lparr>argv := (argv c)[0 := Some full_path]\<rparr>), evs)
                     | (None, evs) \<Rightarrow> (Return False, cmd, evs)))))"

section \<open>The builtins\<close>

text \<open>Neither function tests its argument: a \<^verbatim>\<open>NULL\<close> command or a \<^verbatim>\<open>NULL\<close>
  \<^verbatim>\<open>argv[0]\<close> is dereferenced. \<open>do_builtin\<close> looks for \<^verbatim>\<open>exit\<close> first and takes every
  other command for \<^verbatim>\<open>cd\<close>; what it returns for \<^verbatim>\<open>cd\<close> with at most one argument is
  the value of \<^verbatim>\<open>chdir\<close>.\<close>

definition is_builtin :: "command option \<Rightarrow> bool outcome" where
  "is_builtin cmd =
     (case cmd of
        None \<Rightarrow> Fault
      | Some c \<Rightarrow>
          (case slot c 0 of
             Some (Some executable) \<Rightarrow>
               Return (strcmp_eq executable ''cd'' \<or> strcmp_eq executable ''exit'')
           | _ \<Rightarrow> Fault))"

definition do_builtin ::
  "shell_h \<Rightarrow> world \<Rightarrow> command option \<Rightarrow> int outcome \<times> event list" where
  "do_builtin h w cmd =
     (case cmd of
        None \<Rightarrow> (Fault, [])
      | Some c \<Rightarrow>
          (case slot c 0 of
             Some (Some a0) \<Rightarrow>
               if strcmp_eq a0 ''exit'' then (Exit (SUCCESS h), [])
               else if argc c = 1 then
                 (let home = getenv w ''HOME''
                  in (Return (chdir w home), [Chdir (map_option cstring home)]))
               else if argc c = 2 then
                 (case slot c 1 of
                    None \<Rightarrow> (Fault, [])
                  | Some a1 \<Rightarrow> (Return (chdir w a1), [Chdir (map_option cstring a1)]))
               else (Return (ERROR h), [Stderr (''cd: Too many arguments'' @ [CHR 0x0A])])
           | _ \<Rightarrow> (Fault, [])))"

section \<open>execute\<close>

text \<open>The argument vector \<^verbatim>\<open>execv\<close> reads: the strings of the slots before the first
  \<^verbatim>\<open>NULL\<close>.\<close>

definition arg_strings :: "command \<Rightarrow> string list" where
  "arg_strings c =
     map (\<lambda>a. case a of None \<Rightarrow> [] | Some buf \<Rightarrow> cstring buf)
       (takeWhile (\<lambda>a. a \<noteq> None) (argv c))"

text \<open>From \<^verbatim>\<open>fork()\<close> on, for a command whose \<^verbatim>\<open>argv[0]\<close> is the resolved path.\<close>

definition spawn_and_wait ::
  "shell_h \<Rightarrow> world \<Rightarrow> command \<Rightarrow> char list \<Rightarrow> int outcome \<times> event list" where
  "spawn_and_wait h w c a0 =
     (let pid = fork w in
      if pid < 0 then (Return (ERROR h), [Fork, Perror ''fork failed''])
      else if pid = 0 then
        (if execv_ok w (cstring a0) then (Exec (cstring a0) (arg_strings c), [Fork])
         else (Exit EXIT_FAILURE,
               [Fork, Execv (cstring a0) (arg_strings c), Perror ''execv failed'']))
      else
        (case waitpid w pid of
           None \<Rightarrow> (Return (ERROR h), [Fork, Waitpid pid, Perror ''waitpid failed''])
         | Some status \<Rightarrow>
             if WIFEXITED status \<and> WEXITSTATUS status = 0
             then (Return (SUCCESS h), [Fork, Waitpid pid])
             else (Return (ERROR h), [Fork, Waitpid pid])))"

definition not_found_message :: "char list \<Rightarrow> string" where
  "not_found_message a0 = ''Command '' @ cstring a0 @ '' not found!'' @ [CHR 0x0A]"

text \<open>\<open>execute\<close> returns its result, the command as the call leaves it
  (\<open>find_full_path\<close> writes \<^verbatim>\<open>argv[0]\<close> in place) and the trace of the call.\<close>

definition execute ::
  "shell_h \<Rightarrow> world \<Rightarrow> command option \<Rightarrow> int outcome \<times> command option \<times> event list" where
  "execute h w cmd =
     (case cmd of
        None \<Rightarrow> (Return (ERROR h), cmd, [])
      | Some c \<Rightarrow>
          (case slot c 0 of
             None \<Rightarrow> (Fault, cmd, [])
           | Some None \<Rightarrow> (Return (ERROR h), cmd, [])
           | Some (Some a0) \<Rightarrow>
               (case is_builtin cmd of
                  Return True \<Rightarrow>
                    (case do_builtin h w cmd of (r, evs) \<Rightarrow> (r, cmd, evs))
                | Return False \<Rightarrow>
                    (case find_full_path h w cmd of
                       (Return False, Some c', evs) \<Rightarrow>
                         (case slot c' 0 of
                            Some (Some name) \<Rightarrow>
                              (Return (ERROR h), Some c',
                               evs @ [Stdout (not_found_message name)])
                          | _ \<Rightarrow> (Fault, Some c', evs))
                     | (Return True, Some c', evs) \<Rightarrow>
                         (case slot c' 0 of
                            Some (Some path) \<Rightarrow>
                              (case spawn_and_wait h w c' path of
                                 (r, evs') \<Rightarrow> (r, Some c', evs @ evs'))
                          | _ \<Rightarrow> (Fault, Some c', evs))
                     | (_, cmd', evs) \<Rightarrow> (Fault, cmd', evs))
                | _ \<Rightarrow> (Fault, cmd, []))))"

section \<open>Notions derived from find_full_path\<close>

text \<open>
  The string \<open>find_full_path\<close> builds for a directory (what \<^verbatim>\<open>stat\<close> is asked about and
  what \<^verbatim>\<open>argv[0]\<close> becomes), the test the loop makes on it, the directories a run of
  the loop gets to (all up to and including the first that matches), and the paths of
  the \<^verbatim>\<open>stat\<close> calls in a trace.
\<close>

definition candidate :: "shell_h \<Rightarrow> char list \<Rightarrow> string \<Rightarrow> string" where
  "candidate h a0 dir = cstring (snprintf_path h dir a0)"

definition matches :: "shell_h \<Rightarrow> world \<Rightarrow> char list \<Rightarrow> string \<Rightarrow> bool" where
  "matches h w a0 dir = is_regular_file w (snprintf_path h dir a0)"

definition tried :: "shell_h \<Rightarrow> world \<Rightarrow> char list \<Rightarrow> string list \<Rightarrow> string list" where
  "tried h w a0 dirs =
     takeWhile (\<lambda>d. \<not> matches h w a0 d) dirs
       @ take 1 (dropWhile (\<lambda>d. \<not> matches h w a0 d) dirs)"

definition stat_calls :: "event list \<Rightarrow> string list" where
  "stat_calls evs = concat (map (\<lambda>e. case e of Stat p \<Rightarrow> [p] | _ \<Rightarrow> []) evs)"

section \<open>What the specification speaks of\<close>

text \<open>
  The specification counts the maximal runs of characters that are not delimiters, and
  speaks of the non-empty colon-separated segments of the search path. These
  definitions follow its words and use no \<open>strtok\<close>: a run starts at a position
  that holds no delimiter and is the first of the line or follows a delimiter, and goes
  on to the next delimiter; a segment is what stands between two separators, the
  beginning or the end of the string.
\<close>

definition run_starts :: "string \<Rightarrow> string \<Rightarrow> nat list" where
  "run_starts delim s =
     filter (\<lambda>i. s ! i \<notin> set delim \<and> (i = 0 \<or> s ! (i - 1) \<in> set delim)) [0..<length s]"

definition runs :: "string \<Rightarrow> string \<Rightarrow> string list" where
  "runs delim s = map (\<lambda>i. takeWhile (\<lambda>c. c \<notin> set delim) (drop i s)) (run_starts delim s)"

fun split_at :: "char \<Rightarrow> string \<Rightarrow> string list" where
  "split_at sep [] = [[]]"
| "split_at sep (c # cs) =
     (if c = sep then [] # split_at sep cs
      else (case split_at sep cs of [] \<Rightarrow> [[c]] | f # fs \<Rightarrow> (c # f) # fs))"

definition segments :: "char \<Rightarrow> string \<Rightarrow> string list" where
  "segments sep s = filter (\<lambda>f. f \<noteq> []) (split_at sep s)"

text \<open>The starts of the runs of a string that follows other text: \<open>b\<close> says whether a
  run may start at its first character, that is, whether a delimiter (or nothing)
  stands before it.\<close>

definition starts_after :: "bool \<Rightarrow> string \<Rightarrow> string \<Rightarrow> nat list" where
  "starts_after b delim s =
     filter (\<lambda>i. s ! i \<notin> set delim \<and> (if i = 0 then b else s ! (i - 1) \<in> set delim)) [0..<length s]"

definition runs_after :: "bool \<Rightarrow> string \<Rightarrow> string \<Rightarrow> string list" where
  "runs_after b delim s = map (\<lambda>i. takeWhile (\<lambda>c. c \<notin> set delim) (drop i s)) (starts_after b delim s)"

section \<open>Example parameters\<close>

text \<open>Concrete values at which the theorems below are instantiated: constants for
  \<^verbatim>\<open>shell.h\<close>, fresh memory full of question marks, a small file system, and some
  commands. \<open>str_buf s\<close> is the smallest buffer that holds the string \<open>s\<close>; \<open>ls_arg\<close>
  is the buffer \<open>parse\<close> fills for the token \<^verbatim>\<open>ls\<close>.\<close>

definition example_h :: shell_h where
  "example_h = \<lparr>MAX_LINE_SIZE = 16, MAX_ARG_LEN = 8, SUCCESS = 0, ERROR = - 1\<rparr>"

definition example_junk :: fresh_memory where
  "example_junk = (\<lambda>i k. CHR ''?'')"

definition example_world :: world where
  "example_world =
     \<lparr>getenv = (\<lambda>name. if name = ''PATH'' then Some '':/bin::/usr/bin:''
                      else if name = ''HOME'' then Some ''/home/u'' else None),
      stat = (\<lambda>path. if path = ''/usr/bin/ls'' then Some Regular
                    else if path = ''/bin'' \<or> path = ''/usr/bin'' \<or> path = ''/bin/ls''
                    then Some Directory else None),
      chdir_ok = (\<lambda>path. path = ''/tmp'' \<or> path = ''/home/u''),
      fork = 7,
      execv_ok = (\<lambda>path. True),
      waitpid = (\<lambda>pid. if pid = 7 then Some (Exited 0) else None)\<rparr>"

definition str_buf :: "string \<Rightarrow> char list" where
  "str_buf s = s @ [NUL]"

definition ls_arg :: "char list" where
  "ls_arg = ''ls'' @ replicate 6 NUL"

definition example_cmd :: command where
  "example_cmd = \<lparr>argc = 1, argv = [Some ls_arg, None]\<rparr>"

definition nosuch_cmd :: command where
  "nosuch_cmd = \<lparr>argc = 1, argv = [Some (str_buf ''xyz''), None]\<rparr>"

definition cd_cmd :: command where
  "cd_cmd = \<lparr>argc = 2, argv = [Some (str_buf ''cd''), Some (str_buf ''/tmp''), None]\<rparr>"

definition exit_cmd :: command where
  "exit_cmd =
     \<lparr>argc = 3,
      argv = [Some (str_buf ''exit''), Some (str_buf ''now''), Some (str_buf ''17''), None]\<rparr>"

text \<open>A search path of one directory, twenty levels deep, each level a name of 200
  characters: 4020 characters, which Linux accepts (a name may have 255 characters, a
  path 4095). The file system holds these twenty directories, one in the other, and
  the regular file \<^verbatim>\<open>ls\<close> in the innermost.\<close>

definition long_name :: string where
  "long_name = ''/'' @ replicate 200 CHR ''d''"

definition long_dir :: string where
  "long_dir = concat (replicate 20 long_name)"

definition long_dir_world :: world where
  "long_dir_world =
     \<lparr>getenv = (\<lambda>name. if name = ''PATH'' then Some long_dir else None),
      stat = (\<lambda>path. if path = long_dir @ ''/ls'' then Some Regular
                    else if path \<in> set (map (\<lambda>k. concat (replicate k long_name)) [1..<21])
                    then Some Directory else None),
      chdir_ok = (\<lambda>path. False),
      fork = 7,
      execv_ok = (\<lambda>path. True),
      waitpid = (\<lambda>pid. Some (Exited 0))\<rparr>"

text \<open>A search path whose one entry is longer than the 15 characters a buffer of 16
  bytes holds, and a file system with one regular file, whose name is the first 15
  characters of that entry: no file \<^verbatim>\<open>ls\<close> is in the directory the entry names.\<close>

definition cut_world :: world where
  "cut_world =
     \<lparr>getenv = (\<lambda>name. if name = ''PATH'' then Some ''/t/abcdefghijklmn'' else None),
      stat = (\<lambda>path. if path = ''/t/abcdefghijkl'' then Some Regular
                    else if path = ''/t'' then Some Directory else None),
      chdir_ok = (\<lambda>path. False),
      fork = 7,
      execv_ok = (\<lambda>path. True),
      waitpid = (\<lambda>pid. Some (Exited 0))\<rparr>"

section \<open>C strings and tokens: lemmas\<close>

lemma cstring_strcpy: "cstring (strcpy l) = cstring l"
proof -
  have "\<And>x. x \<in> set (takeWhile (\<lambda>c. c \<noteq> NUL) l) \<Longrightarrow> x \<noteq> NUL"
    by (auto dest: set_takeWhileD)
  then show ?thesis
    by (simp add: strcpy_def cstring_def takeWhile_append2)
qed

lemma cstring_NUL_free: "NUL \<notin> set (cstring buf)"
  by (auto simp: cstring_def dest: set_takeWhileD)

lemma cstring_id: "NUL \<notin> set s \<Longrightarrow> cstring s = s"
  by (auto simp: cstring_def takeWhile_eq_all_conv)

lemma count_args_tokens:
  "count_args n st = n + int (length (tokens_from delimiters st))"
  by (induction n st rule: count_args.induct) simp_all

lemma tokens_from_Cons:
  "tokens_from delim st = t # ts \<Longrightarrow>
     \<exists>rest. st = (Some t, rest) \<and> tokens_from delim (strtok delim rest) = ts"
  by (cases "(delim, st)" rule: tokens_from.cases) auto

lemma fill_args_fold:
  assumes "k \<le> length (tokens_from delimiters st)" and "k \<le> length av"
  shows "\<exists>st'. fold (fill_arg h) [0..<k] (av, st) =
           (map (\<lambda>i. map_option (\<lambda>buf. store_arg h buf (tokens_from delimiters st ! i)) (av ! i)) [0..<k]
              @ drop k av, st')
         \<and> tokens_from delimiters st' = drop k (tokens_from delimiters st)"
  using assms
proof (induction k)
  case 0
  then show ?case by (cases st) simp
next
  case (Suc k)
  let ?toks = "tokens_from delimiters st"
  let ?f = "\<lambda>i. map_option (\<lambda>buf. store_arg h buf (?toks ! i)) (av ! i)"
  from Suc obtain st' where
    f: "fold (fill_arg h) [0..<k] (av, st) = (map ?f [0..<k] @ drop k av, st')"
    and t: "tokens_from delimiters st' = drop k ?toks"
    by auto
  from Suc.prems have "drop k ?toks = ?toks ! k # drop (Suc k) ?toks"
    by (simp add: Cons_nth_drop_Suc)
  with t obtain rest where st': "st' = (Some (?toks ! k), rest)"
    and r: "tokens_from delimiters (strtok delimiters rest) = drop (Suc k) ?toks"
    by (metis tokens_from_Cons)
  from Suc.prems have d: "drop k av = av ! k # drop (Suc k) av"
    by (simp add: Cons_nth_drop_Suc)
  have "fold (fill_arg h) [0..<Suc k] (av, st) = fill_arg h k (map ?f [0..<k] @ drop k av, st')"
    by (simp add: f)
  also have "\<dots> = (map ?f [0..<Suc k] @ drop (Suc k) av, strtok delimiters rest)"
    by (simp add: fill_arg_def st' d nth_append list_update_append)
  finally show ?case using r by (cases "strtok delimiters rest") auto
qed

lemma length_new_arg: "length (new_arg h junk i) = nat (MAX_ARG_LEN h)"
  by (simp add: new_arg_def)

lemma update_at_end: "length xs = m \<Longrightarrow> (xs @ [x])[m := y] = xs @ [y]"
  by auto

lemma store_arg_eq:
  assumes pos: "0 < MAX_ARG_LEN h"
    and len: "length buf = nat (MAX_ARG_LEN h)"
    and nul: "NUL \<notin> set tok"
  shows "store_arg h buf tok =
           take (nat (MAX_ARG_LEN h) - 1) tok
             @ replicate (nat (MAX_ARG_LEN h) - 1 - length tok) NUL @ [NUL]"
proof -
  define m where "m = nat (MAX_ARG_LEN h - 1)"
  from pos have M: "nat (MAX_ARG_LEN h) = Suc m" by (simp add: m_def)
  let ?copied = "take m tok @ replicate (m - length tok) NUL"
  have lc: "length ?copied = m" by simp
  from len M have "length (drop m buf) = 1" by simp
  then obtain x where d: "drop m buf = [x]"
    by (cases "drop m buf") auto
  have "strncpy buf tok m = ?copied @ [x]"
    using nul by (simp add: strncpy_def strlen_def cstring_id d)
  then have "store_arg h buf tok = (?copied @ [x])[m := NUL]"
    by (simp add: store_arg_def m_def)
  also have "\<dots> = ?copied @ [NUL]"
    using lc by (rule update_at_end)
  finally show ?thesis by (simp add: M)
qed

lemma cstring_append_NUL:
  "NUL \<notin> set s \<Longrightarrow> cstring (s @ NUL # r) = s"
  by (induction s) (auto simp: cstring_def)

lemma cstring_stored:
  assumes "NUL \<notin> set tok"
  shows "cstring (take n tok @ replicate k NUL @ [NUL]) = take n tok"
proof -
  from assms have n: "NUL \<notin> set (take n tok)" by (auto dest: in_set_takeD)
  have "take n tok @ replicate k NUL @ [NUL] = take n tok @ NUL # replicate k NUL"
    by (simp add: replicate_append_same)
  with n show ?thesis by (simp add: cstring_append_NUL)
qed

lemma cstring_store_arg:
  assumes "0 < MAX_ARG_LEN h" and "NUL \<notin> set tok"
  shows "cstring (store_arg h (new_arg h junk i) tok) = take (nat (MAX_ARG_LEN h) - 1) tok"
  using assms by (simp add: store_arg_eq length_new_arg cstring_stored)

lemma parse_None: "parse h junk None = None"
  by (simp add: parse_def)

lemma parse_Some:
  "parse h junk (Some l) =
     Some \<lparr>argc = int (length (tokens delimiters (cstring l))),
           argv = map (\<lambda>i. Some (store_arg h (new_arg h junk i) (tokens delimiters (cstring l) ! i)))
                    [0..<length (tokens delimiters (cstring l))] @ [None]\<rparr>"
proof -
  let ?st = "strtok delimiters (cstring l)"
  let ?toks = "tokens_from delimiters ?st"
  let ?n = "length ?toks"
  let ?av = "map (\<lambda>i. Some (new_arg h junk i)) [0..<?n] @ [None]"
  have n: "count_args 0 ?st = int ?n"
    by (simp add: count_args_tokens)
  from fill_args_fold [of ?n ?st ?av h] obtain st' where
    "fold (fill_arg h) [0..<?n] (?av, ?st) =
       (map (\<lambda>i. map_option (\<lambda>buf. store_arg h buf (?toks ! i)) (?av ! i)) [0..<?n]
          @ drop ?n ?av, st')"
    by auto
  moreover have "map (\<lambda>i. map_option (\<lambda>buf. store_arg h buf (?toks ! i)) (?av ! i)) [0..<?n]
      = map (\<lambda>i. Some (store_arg h (new_arg h junk i) (?toks ! i))) [0..<?n]"
    by (rule map_cong) (auto simp: nth_append)
  ultimately have "fst (fold (fill_arg h) [0..<?n] (?av, ?st)) =
      map (\<lambda>i. Some (store_arg h (new_arg h junk i) (?toks ! i))) [0..<?n] @ [None]"
    by simp
  then show ?thesis
    by (simp add: parse_def cstring_strcpy n create_command_def tokens_def Let_def)
qed

lemma tokens_unfold:
  "tokens delim s =
     (case dropWhile (\<lambda>c. c \<in> set delim) s of
        [] \<Rightarrow> []
      | c # cs \<Rightarrow> (c # takeWhile (\<lambda>c. c \<notin> set delim) cs)
                   # tokens delim (drop 1 (dropWhile (\<lambda>c. c \<notin> set delim) cs)))"
  by (cases "dropWhile (\<lambda>c. c \<in> set delim) s")
     (simp_all add: tokens_def strtok_None strtok_Some del: dropWhile_eq_Nil_conv)

lemma tokens_rest_shorter:
  fixes delim :: string
  assumes "dropWhile (\<lambda>c. c \<in> set delim) s = c # cs"
  shows "length (drop 1 (dropWhile (\<lambda>c. c \<notin> set delim) cs)) < length s"
proof -
  from assms have "strtok delim s = (Some (c # takeWhile (\<lambda>c. c \<notin> set delim) cs),
      drop 1 (dropWhile (\<lambda>c. c \<notin> set delim) cs))"
    by (rule strtok_Some)
  then show ?thesis by (rule strtok_rest_shorter)
qed

lemma run_starts_after: "run_starts delim s = starts_after True delim s"
  unfolding run_starts_def starts_after_def by (rule filter_cong) auto

lemma runs_runs_after: "runs delim s = runs_after True delim s"
  by (simp add: runs_def runs_after_def run_starts_after)

lemma starts_after_Nil: "starts_after b delim [] = []"
  by (simp add: starts_after_def)

lemma starts_after_Cons:
  "starts_after b delim (c # cs) =
     (if c \<notin> set delim \<and> b then [0] else []) @ map Suc (starts_after (c \<in> set delim) delim cs)"
proof -
  have "[0..<length (c # cs)] = 0 # map Suc [0..<length cs]"
    by (simp only: length_Cons map_Suc_upt upt_conv_Cons zero_less_Suc)
  moreover have "filter (\<lambda>i. (c # cs) ! i \<notin> set delim \<and>
                  (if i = 0 then b else (c # cs) ! (i - 1) \<in> set delim)) (map Suc [0..<length cs])
      = map Suc (starts_after (c \<in> set delim) delim cs)"
    unfolding starts_after_def filter_map
    by (rule arg_cong [where f = "map Suc"], rule filter_cong) (auto simp: nth_Cons')
  ultimately show ?thesis
    unfolding starts_after_def by simp
qed

lemma runs_after_Nil: "runs_after b delim [] = []"
  by (simp add: runs_after_def starts_after_Nil)

lemma runs_after_Cons:
  "runs_after b delim (c # cs) =
     (if c \<notin> set delim \<and> b then [takeWhile (\<lambda>c. c \<notin> set delim) (c # cs)] else [])
       @ runs_after (c \<in> set delim) delim cs"
  by (simp add: runs_after_def starts_after_Cons comp_def)

lemma runs_after_skip_delims:
  "runs_after True delim s = runs_after True delim (dropWhile (\<lambda>c. c \<in> set delim) s)"
  by (induction s) (simp_all add: runs_after_Cons)

lemma runs_after_in_run:
  "runs_after False delim s = runs_after True delim (drop 1 (dropWhile (\<lambda>c. c \<notin> set delim) s))"
  by (induction s) (simp_all add: runs_after_Cons runs_after_Nil)

lemma tokens_runs_after: "tokens delim s = runs_after True delim s"
proof (induction s rule: length_induct)
  case (1 s)
  show ?case
  proof (cases "dropWhile (\<lambda>c. c \<in> set delim) s")
    case Nil
    then show ?thesis
      using runs_after_skip_delims [of delim s]
      by (simp add: tokens_unfold [of delim s] runs_after_Nil del: dropWhile_eq_Nil_conv)
  next
    case (Cons c cs)
    then have c: "c \<notin> set delim" by (rule dropWhile_hd_not)
    let ?r = "drop 1 (dropWhile (\<lambda>c. c \<notin> set delim) cs)"
    from Cons have "length ?r < length s" by (rule tokens_rest_shorter)
    with 1 have "tokens delim ?r = runs_after True delim ?r" by blast
    moreover have "runs_after True delim s = runs_after True delim (c # cs)"
      using runs_after_skip_delims [of delim s] by (simp add: Cons)
    ultimately show ?thesis
      using c Cons by (simp add: tokens_unfold [of delim s] runs_after_Cons runs_after_in_run)
  qed
qed

lemma split_at_not_Nil: "split_at sep s \<noteq> []"
  by (induction s) (auto split: list.splits)

lemma split_at_Cons_other:
  "c \<noteq> sep \<Longrightarrow> split_at sep (c # cs) = (c # hd (split_at sep cs)) # tl (split_at sep cs)"
  using split_at_not_Nil [of sep cs] by (cases "split_at sep cs") auto

lemma segments_skip_seps:
  "segments sep s = segments sep (dropWhile (\<lambda>c. c \<in> set [sep]) s)"
  by (induction s) (simp_all add: segments_def)

lemma split_at_unfold:
  "split_at sep s =
     takeWhile (\<lambda>c. c \<notin> set [sep]) s
       # (case dropWhile (\<lambda>c. c \<notin> set [sep]) s of [] \<Rightarrow> [] | d # r \<Rightarrow> split_at sep r)"
  by (induction s) (simp_all add: split_at_Cons_other)

lemma segments_in_run:
  assumes "c \<noteq> sep"
  shows "segments sep (c # cs) =
           (c # takeWhile (\<lambda>c. c \<notin> set [sep]) cs)
             # segments sep (drop 1 (dropWhile (\<lambda>c. c \<notin> set [sep]) cs))"
proof -
  have u: "split_at sep (c # cs) =
      (c # takeWhile (\<lambda>c. c \<notin> set [sep]) cs)
        # (case dropWhile (\<lambda>c. c \<notin> set [sep]) cs of [] \<Rightarrow> [] | d # r \<Rightarrow> split_at sep r)"
    using assms by (subst split_at_unfold) simp
  show ?thesis
  proof (cases "dropWhile (\<lambda>c. c \<notin> set [sep]) cs")
    case Nil
    then show ?thesis
      unfolding segments_def u by (simp del: dropWhile_eq_Nil_conv split_at.simps(2))
  next
    case (Cons d r)
    then show ?thesis
      unfolding segments_def u by (simp del: split_at.simps(2))
  qed
qed

lemma tokens_segments: "tokens [sep] s = segments sep s"
proof (induction s rule: length_induct)
  case (1 s)
  show ?case
  proof (cases "dropWhile (\<lambda>c. c \<in> set [sep]) s")
    case Nil
    then show ?thesis
      using segments_skip_seps [of sep s]
      by (simp add: tokens_unfold [of "[sep]" s] segments_def del: dropWhile_eq_Nil_conv)
  next
    case (Cons c cs)
    then have "c \<notin> set [sep]" by (rule dropWhile_hd_not)
    then have c: "c \<noteq> sep" by simp
    let ?r = "drop 1 (dropWhile (\<lambda>c. c \<notin> set [sep]) cs)"
    from Cons have "length ?r < length s" by (rule tokens_rest_shorter)
    with 1 have "tokens [sep] ?r = segments sep ?r" by blast
    moreover have "segments sep s = segments sep (c # cs)"
      using segments_skip_seps [of sep s] by (simp only: Cons)
    ultimately show ?thesis
      using c Cons by (simp add: tokens_unfold [of "[sep]" s] segments_in_run)
  qed
qed

lemma tokens_props:
  "t \<in> set (tokens delim s) \<Longrightarrow> t \<noteq> [] \<and> set t \<inter> set delim = {} \<and> set t \<subseteq> set s"
proof (induction s arbitrary: t rule: length_induct)
  case (1 s)
  show ?case
  proof (cases "dropWhile (\<lambda>c. c \<in> set delim) s")
    case Nil
    with 1 show ?thesis
      by (simp add: tokens_unfold [of delim s] del: dropWhile_eq_Nil_conv)
  next
    case (Cons c cs)
    then have c: "c \<notin> set delim" by (rule dropWhile_hd_not)
    let ?r = "drop 1 (dropWhile (\<lambda>c. c \<notin> set delim) cs)"
    from Cons have len: "length ?r < length s" by (rule tokens_rest_shorter)
    have sub: "set (c # cs) \<subseteq> set s"
      unfolding Cons [symmetric] by (rule set_dropWhileD [THEN subsetI])
    have "set ?r \<subseteq> set cs"
      by (meson in_set_dropD set_dropWhileD subsetI)
    with sub have subr: "set ?r \<subseteq> set s" by auto
    from "1.prems" Cons
    consider "t = c # takeWhile (\<lambda>c. c \<notin> set delim) cs" | "t \<in> set (tokens delim ?r)"
      by (auto simp: tokens_unfold [of delim s])
    then show ?thesis
    proof cases
      case 1
      have "set (takeWhile (\<lambda>c. c \<notin> set delim) cs) \<subseteq> set cs"
        by (rule set_takeWhileD [THEN conjunct1, THEN subsetI])
      moreover have "set (takeWhile (\<lambda>c. c \<notin> set delim) cs) \<inter> set delim = {}"
        by (auto dest: set_takeWhileD)
      ultimately show ?thesis using 1 c sub by auto
    next
      case 2
      with "1.IH" len have "t \<noteq> [] \<and> set t \<inter> set delim = {} \<and> set t \<subseteq> set ?r"
        by blast
      with subr show ?thesis by auto
    qed
  qed
qed

lemma tokens_length_le: "length (tokens delim s) \<le> length s"
proof (induction s rule: length_induct)
  case (1 s)
  show ?case
  proof (cases "dropWhile (\<lambda>c. c \<in> set delim) s")
    case Nil
    then show ?thesis
      by (simp add: tokens_unfold [of delim s] del: dropWhile_eq_Nil_conv)
  next
    case (Cons c cs)
    let ?r = "drop 1 (dropWhile (\<lambda>c. c \<notin> set delim) cs)"
    from Cons have len: "length ?r < length s" by (rule tokens_rest_shorter)
    with 1 have "length (tokens delim ?r) \<le> length ?r" by blast
    with len Cons show ?thesis
      by (simp add: tokens_unfold [of delim s])
  qed
qed

lemma tokens_blank:
  "set s \<subseteq> set delim \<Longrightarrow> tokens delim s = []"
proof -
  assume "set s \<subseteq> set delim"
  then have "dropWhile (\<lambda>c. c \<in> set delim) s = []" by auto
  then show ?thesis
    by (subst tokens_unfold) (simp del: dropWhile_eq_Nil_conv)
qed

lemma tokens_nonblank:
  assumes "\<not> set s \<subseteq> set delim"
  shows "tokens delim s \<noteq> []"
proof -
  from assms have "dropWhile (\<lambda>c. c \<in> set delim) s \<noteq> []" by auto
  then show ?thesis
    by (subst tokens_unfold) (simp split: list.splits del: dropWhile_eq_Nil_conv)
qed

lemma tokens_Nil_iff: "tokens delim s = [] \<longleftrightarrow> set s \<subseteq> set delim"
  using tokens_blank tokens_nonblank by blast

lemma parse_wf: "parse h junk (Some l) = Some c \<Longrightarrow> wf_command c"
  by (auto simp: parse_Some wf_command_def list_all_iff)

lemma parse_argc_le_strlen:
  "parse h junk (Some l) = Some c \<Longrightarrow> argc c \<le> int (strlen l)"
  using tokens_length_le [of delimiters "cstring l"] by (auto simp: parse_Some strlen_def)

lemma tokens_NUL_free:
  "t \<in> set (tokens delim (cstring l)) \<Longrightarrow> NUL \<notin> set t"
  using tokens_props [of t delim "cstring l"] cstring_NUL_free [of l] by auto

lemma parse_argv_nth:
  assumes "i < length (tokens delimiters (cstring line))"
  shows "\<exists>cmd. parse h junk (Some line) = Some cmd
           \<and> argv cmd ! i = Some (store_arg h (new_arg h junk i) (tokens delimiters (cstring line) ! i))"
  using assms by (simp add: parse_Some nth_append)

section \<open>find_full_path, builtins, execute: lemmas\<close>

lemma matches_stat: "matches h w a0 dir \<longleftrightarrow> stat w (candidate h a0 dir) = Some Regular"
  by (simp add: matches_def candidate_def is_regular_file_def S_ISREG_def split: option.splits)

lemma candidate_eq:
  "NUL \<notin> set dir \<Longrightarrow>
     candidate h a0 dir = take (nat (MAX_LINE_SIZE h) - 1) (dir @ ''/'' @ cstring a0)"
proof -
  assume "NUL \<notin> set dir"
  moreover have "NUL \<noteq> CHR ''/''" by (simp add: NUL_def)
  ultimately have "NUL \<notin> set (dir @ ''/'' @ cstring a0)"
    using cstring_NUL_free [of a0] by auto
  then have "NUL \<notin> set (take (nat (MAX_LINE_SIZE h) - 1) (dir @ ''/'' @ cstring a0))"
    by (meson in_set_takeD)
  then show ?thesis
    unfolding candidate_def snprintf_path_def by (rule cstring_append_NUL)
qed

lemma strcpy_snprintf_path:
  "strcpy (snprintf_path h dir a0) = candidate h a0 dir @ [NUL]"
  by (simp add: strcpy_def candidate_def)

lemma tried_Cons:
  "tried h w a0 (d # ds) = (if matches h w a0 d then [d] else d # tried h w a0 ds)"
  by (simp add: tried_def)

lemma path_loop_eq:
  "path_loop h w a0 st =
     (map_option (\<lambda>d. candidate h a0 d @ [NUL]) (find (matches h w a0) (tokens_from '':'' st)),
      map (\<lambda>d. Stat (candidate h a0 d)) (tried h w a0 (tokens_from '':'' st)))"
proof (induction h w a0 st rule: path_loop.induct)
  case (1 h w a0 rest)
  show ?case by (simp add: tried_def)
next
  case (2 h w a0 currentToken rest)
  show ?case
  proof (cases "matches h w a0 currentToken")
    case True
    then show ?thesis
      by (simp add: tried_Cons strcpy_snprintf_path matches_def [symmetric] candidate_def Let_def)
  next
    case False
    with 2 show ?thesis
      by (simp add: tried_Cons matches_def [symmetric] candidate_def [symmetric] Let_def
          split: prod.splits)
  qed
qed

lemma find_full_path_eq:
  assumes "slot c 0 = Some (Some a0)" and "getenv w ''PATH'' = Some path_env"
  shows "find_full_path h w (Some c) =
     (case find (matches h w a0) (tokens '':'' (cstring path_env)) of
        None \<Rightarrow> (Return False, Some c,
                  map (\<lambda>d. Stat (candidate h a0 d)) (tokens '':'' (cstring path_env)))
      | Some d \<Rightarrow>
          (Return True, Some (c\<lparr>argv := (argv c)[0 := Some (candidate h a0 d @ [NUL])]\<rparr>),
           map (\<lambda>d. Stat (candidate h a0 d)) (tried h w a0 (tokens '':'' (cstring path_env)))))"
proof -
  let ?dirs = "tokens '':'' (cstring path_env)"
  have "tried h w a0 ?dirs = ?dirs" if "find (matches h w a0) ?dirs = None"
  proof -
    from that have "\<And>d. d \<in> set ?dirs \<Longrightarrow> \<not> matches h w a0 d"
      by (simp add: find_None_iff)
    then show ?thesis
      by (simp add: tried_def takeWhile_eq_all_conv [THEN iffD2])
  qed
  then show ?thesis
    using assms
    by (simp add: find_full_path_def cstring_strcpy path_loop_eq tokens_def [symmetric]
        split: option.splits)
qed

lemma segments_NUL_free:
  "d \<in> set (segments CHR '':'' (cstring p)) \<Longrightarrow> NUL \<notin> set d"
  using tokens_NUL_free [of d "'':''" p] by (simp add: tokens_segments [symmetric])

lemma tried_first:
  assumes "\<forall>x \<in> set pre. \<not> matches h w a0 x" and "matches h w a0 d"
  shows "tried h w a0 (pre @ d # post) = pre @ [d]"
    and "find (matches h w a0) (pre @ d # post) = Some d"
  using assms by (induction pre) (auto simp: tried_Cons)

lemma tokens_single:
  assumes "s \<noteq> []" and "set s \<inter> set delim = {}"
  shows "tokens delim s = [s]"
proof -
  from assms obtain c cs where s: "s = c # cs" by (cases s) auto
  with assms have c: "c \<notin> set delim" and cs: "\<forall>x \<in> set cs. x \<notin> set delim" by auto
  from c have d: "dropWhile (\<lambda>c. c \<in> set delim) s = c # cs" by (simp add: s)
  from cs have tw: "takeWhile (\<lambda>c. c \<notin> set delim) cs = cs"
    and dw: "dropWhile (\<lambda>c. c \<notin> set delim) cs = []"
    by simp_all
  have "tokens delim s = (c # cs) # tokens delim []"
    by (subst tokens_unfold) (simp only: d tw dw list.case drop_Nil)
  then show ?thesis
    by (simp add: tokens_blank s)
qed

lemma slot_0: "argv c \<noteq> [] \<Longrightarrow> slot c 0 = Some (hd (argv c))"
  by (cases "argv c") (simp_all add: slot_def)

lemma find_full_path_False_unchanged:
  "fst (find_full_path h w cmd) = Return False \<Longrightarrow> fst (snd (find_full_path h w cmd)) = cmd"
  by (auto simp: find_full_path_def Let_def split: option.splits prod.splits)

lemma find_full_path_no_PATH:
  "argv c \<noteq> [] \<Longrightarrow> getenv w ''PATH'' = None \<Longrightarrow>
     fst (find_full_path h w (Some c)) = Return False"
  by (simp add: find_full_path_def slot_0 split: option.splits)

text \<open>Where the path of every directory fits the buffer, resolution is what the
  specification says: it fails when no directory \<open>d\<close> of the search path holds a regular
  file \<open>d/argv0\<close>, and otherwise rewrites argument 0 to \<open>d/argv0\<close> for the first such
  \<open>d\<close>, after the \<^verbatim>\<open>stat\<close> calls for the directories up to \<open>d\<close>.\<close>

lemma candidate_fits:
  assumes "NUL \<notin> set d" and "int (length (d @ ''/'' @ cstring a0)) < MAX_LINE_SIZE h"
  shows "candidate h a0 d = d @ ''/'' @ cstring a0"
proof -
  from assms(2) have "length (d @ ''/'' @ cstring a0) \<le> nat (MAX_LINE_SIZE h) - 1"
    by linarith
  with candidate_eq [OF assms(1), of h a0] show ?thesis
    by (simp only: take_all)
qed

lemma find_full_path_when_paths_fit:
  assumes a0: "slot c 0 = Some (Some a0)" and env: "getenv w ''PATH'' = Some path_env"
    and fit: "\<forall>d \<in> set (segments CHR '':'' (cstring path_env)).
                int (length (d @ ''/'' @ cstring a0)) < MAX_LINE_SIZE h"
  shows "((\<forall>d \<in> set (segments CHR '':'' (cstring path_env)).
              stat w (d @ ''/'' @ cstring a0) \<noteq> Some Regular) \<longrightarrow>
            find_full_path h w (Some c) =
              (Return False, Some c,
               map (\<lambda>d. Stat (d @ ''/'' @ cstring a0)) (segments CHR '':'' (cstring path_env))))
       \<and> (\<forall>pre d post.
             segments CHR '':'' (cstring path_env) = pre @ d # post
             \<and> (\<forall>x \<in> set pre. stat w (x @ ''/'' @ cstring a0) \<noteq> Some Regular)
             \<and> stat w (d @ ''/'' @ cstring a0) = Some Regular \<longrightarrow>
             find_full_path h w (Some c) =
               (Return True, Some (c\<lparr>argv := (argv c)[0 := Some ((d @ ''/'' @ cstring a0) @ [NUL])]\<rparr>),
                map (\<lambda>d. Stat (d @ ''/'' @ cstring a0)) (pre @ [d])))"
proof -
  let ?dirs = "segments CHR '':'' (cstring path_env)"
  let ?p = "\<lambda>d. d @ ''/'' @ cstring a0"
  note eq = find_full_path_eq [OF a0 env, of h, unfolded tokens_segments]
  have cand: "candidate h a0 d = ?p d" if "d \<in> set ?dirs" for d
    using that fit by (intro candidate_fits segments_NUL_free) auto
  then have m: "matches h w a0 d \<longleftrightarrow> stat w (?p d) = Some Regular" if "d \<in> set ?dirs" for d
    using that by (simp add: matches_stat)
  have stats: "map (\<lambda>d. Stat (candidate h a0 d)) ds = map (\<lambda>d. Stat (?p d)) ds"
    if "set ds \<subseteq> set ?dirs" for ds
    using that cand by (intro map_cong) auto
  have none: "find_full_path h w (Some c) = (Return False, Some c, map (\<lambda>d. Stat (?p d)) ?dirs)"
    if "\<forall>d \<in> set ?dirs. stat w (?p d) \<noteq> Some Regular"
  proof -
    from that m have "find (matches h w a0) ?dirs = None"
      by (simp add: find_None_iff)
    with eq stats [of ?dirs] show ?thesis by simp
  qed
  have some: "find_full_path h w (Some c) =
      (Return True, Some (c\<lparr>argv := (argv c)[0 := Some (?p d @ [NUL])]\<rparr>),
       map (\<lambda>d. Stat (?p d)) (pre @ [d]))"
    if split: "?dirs = pre @ d # post"
      and pre: "\<forall>x \<in> set pre. stat w (?p x) \<noteq> Some Regular"
      and d: "stat w (?p d) = Some Regular"
    for pre d post
  proof -
    from split have sub: "set (pre @ [d]) \<subseteq> set ?dirs" by auto
    with pre d m have "\<forall>x \<in> set pre. \<not> matches h w a0 x" and "matches h w a0 d"
      by auto
    from tried_first [OF this, of post] eq stats [OF sub] cand [of d] sub
    show ?thesis by (simp add: split)
  qed
  from none some show ?thesis by blast
qed

lemma stat_calls_map_Stat: "stat_calls (map (\<lambda>d. Stat (f d)) ds) = map f ds"
  by (induction ds) (simp_all add: stat_calls_def)

lemma wf_command_argc_0:
  assumes "wf_command c" and "argc c = 0"
  shows "argv c = [None]"
proof -
  from assms have "length (argv c) = 1" and "last (argv c) = None"
    by (simp_all add: wf_command_def)
  then show ?thesis
    by (cases "argv c") auto
qed

lemma is_builtin_Return:
  "is_builtin (Some c) = Return b \<Longrightarrow> \<exists>a0. slot c 0 = Some (Some a0)"
  by (auto simp: is_builtin_def split: option.splits)

lemma find_full_path_True_slot:
  assumes "find_full_path h w (Some c) = (Return True, Some c', evs)"
  shows "\<exists>path. slot c' 0 = Some (Some path)"
  using assms
  by (auto simp: find_full_path_def Let_def slot_def split: option.splits prod.splits if_splits)

lemma spawn_and_wait_parent:
  assumes "0 < fork w" and "waitpid w (fork w) = Some status"
  shows "spawn_and_wait h w c path =
           (Return (if status = Exited 0 then SUCCESS h else ERROR h), [Fork, Waitpid (fork w)])"
  using assms by (cases status) (auto simp: spawn_and_wait_def Let_def)

lemma wf_command_slot:
  assumes "wf_command c" and "0 \<le> i" and "i < argc c"
  shows "\<exists>buf. slot c (nat i) = Some (Some buf)"
proof -
  from assms have "int (length (argv c)) = argc c + 1"
    by (simp add: wf_command_def)
  with assms have len: "length (argv c) = Suc (nat (argc c))" and n: "nat i < nat (argc c)"
    by linarith+
  then have "nat i < length (butlast (argv c))" by simp
  moreover from assms have "\<forall>a \<in> set (butlast (argv c)). a \<noteq> None"
    by (simp add: wf_command_def list_all_iff)
  ultimately have "butlast (argv c) ! nat i \<noteq> None"
    using nth_mem by blast
  moreover from n len have "butlast (argv c) ! nat i = argv c ! nat i"
    by (simp add: nth_butlast)
  ultimately show ?thesis
    using n len by (auto simp: slot_def)
qed

lemma cstring_str_buf: "NUL \<notin> set s \<Longrightarrow> cstring (str_buf s) = s"
  by (simp add: str_buf_def cstring_append_NUL)

lemma cstring_literal_cd: "cstring ''cd'' = ''cd''"
  by (simp add: cstring_def NUL_def)

lemma cstring_literal_exit: "cstring ''exit'' = ''exit''"
  by (simp add: cstring_def NUL_def)

lemma parse_ls: "parse example_h example_junk (Some ''ls'') = Some example_cmd"
  by (simp add: parse_Some example_cmd_def) code_simp

lemma example_segments:
  "segments CHR '':'' (cstring '':/bin::/usr/bin:'') = [''/bin'', ''/usr/bin'']"
  by code_simp

lemma example_matches:
  "\<not> matches example_h example_world ls_arg ''/bin''"
  "matches example_h example_world ls_arg ''/usr/bin''"
  "candidate example_h ls_arg ''/bin'' = ''/bin/ls''"
  "candidate example_h ls_arg ''/usr/bin'' = ''/usr/bin/ls''"
  by code_simp+

lemma nosuch_matches:
  "\<not> matches example_h example_world (str_buf ''xyz'') ''/bin''"
  "\<not> matches example_h example_world (str_buf ''xyz'') ''/usr/bin''"
  by code_simp+

lemma example_end_to_end:
  "execute example_h example_world (parse example_h example_junk (Some ''ls'')) =
     (Return 0, Some \<lparr>argc = 1, argv = [Some (str_buf ''/usr/bin/ls''), None]\<rparr>,
      [Stat ''/bin/ls'', Stat ''/usr/bin/ls'', Fork, Waitpid 7])"
  unfolding parse_ls by code_simp

lemma example_find_full_path:
  "find_full_path example_h example_world (Some example_cmd) =
     (Return True, Some \<lparr>argc = 1, argv = [Some (''/usr/bin/ls'' @ [NUL]), None]\<rparr>,
      [Stat ''/bin/ls'', Stat ''/usr/bin/ls''])"
  by code_simp

section \<open>The claims\<close>

subsection \<open>C1: execute rejects an invalid command at once\<close>

text \<open>
  C1: when the command is absent, or its argument 0 is \<^verbatim>\<open>NULL\<close>, or its argument list
  is empty (a command of the shape \<open>create_command\<close> builds with \<open>argc = 0\<close>, whose
  slot 0 is the terminating \<^verbatim>\<open>NULL\<close>), \<open>execute\<close> returns \<^verbatim>\<open>ERROR\<close>, leaves the command
  as it is and makes no system call and no output: the trace is empty, so there is no
  \<open>Fork\<close> and no "not found" message in it. A line of delimiters only parses to such
  a command, with \<open>argc = 0\<close>, and is rejected the same way.
\<close>

theorem execute_invalid_command:
  "execute h w None = (Return (ERROR h), None, [])
   \<and> (\<forall>c. slot c 0 = Some None \<longrightarrow> execute h w (Some c) = (Return (ERROR h), Some c, []))
   \<and> (\<forall>c. wf_command c \<and> argc c = 0 \<longrightarrow>
          execute h w (Some c) = (Return (ERROR h), Some c, []))
   \<and> (\<forall>line. set (cstring line) \<subseteq> set delimiters \<longrightarrow>
          (\<exists>c. parse h junk (Some line) = Some c \<and> argc c = 0
             \<and> execute h w (Some c) = (Return (ERROR h), Some c, [])))"
proof -
  have 1: "execute h w None = (Return (ERROR h), None, [])"
    by (simp add: execute_def)
  have 2: "execute h w (Some c) = (Return (ERROR h), Some c, [])" if "slot c 0 = Some None" for c
    using that by (simp add: execute_def)
  have 3: "execute h w (Some c) = (Return (ERROR h), Some c, [])"
    if "wf_command c" "argc c = 0" for c
  proof -
    from that have "argv c = [None]" by (rule wf_command_argc_0)
    then have "slot c 0 = Some None" by (simp add: slot_def)
    then show ?thesis by (rule 2)
  qed
  have 4: "\<exists>c. parse h junk (Some line) = Some c \<and> argc c = 0
      \<and> execute h w (Some c) = (Return (ERROR h), Some c, [])"
    if "set (cstring line) \<subseteq> set delimiters" for line
  proof -
    from that have "tokens delimiters (cstring line) = []" by (rule tokens_blank)
    then have p: "parse h junk (Some line) = Some \<lparr>argc = 0, argv = [None]\<rparr>"
      by (simp add: parse_Some)
    have "slot \<lparr>argc = 0, argv = [None]\<rparr> 0 = Some None" by (simp add: slot_def)
    then have "execute h w (Some \<lparr>argc = 0, argv = [None]\<rparr>)
        = (Return (ERROR h), Some \<lparr>argc = 0, argv = [None]\<rparr>, [])"
      by (rule 2)
    with p show ?thesis by simp
  qed
  from 1 2 3 4 show ?thesis by blast
qed

theorem execute_invalid_command_witness:
  "(\<exists>c. parse example_h example_junk (Some [CHR '' '', CHR 0x09, CHR 0x0A]) = Some c
       \<and> argc c = 0 \<and> execute example_h example_world (Some c) = (Return (- 1), Some c, []))
   \<and> execute example_h example_world (Some \<lparr>argc = 0, argv = [None]\<rparr>)
        = (Return (- 1), Some \<lparr>argc = 0, argv = [None]\<rparr>, [])"
proof -
  have b: "set (cstring [CHR '' '', CHR 0x09, CHR 0x0A]) \<subseteq> set delimiters"
    by code_simp
  have s: "slot \<lparr>argc = 0, argv = [None]\<rparr> 0 = Some None"
    by (simp add: slot_def)
  have e: "ERROR example_h = - 1" by (simp add: example_h_def)
  from execute_invalid_command [of example_h example_world example_junk] b s
  show ?thesis unfolding e by blast
qed

subsection \<open>C2: the argument count of a parsed command\<close>

text \<open>
  C2, as stated: every non-null result of \<open>parse\<close> has \<open>argc\<close> at least one. It
  fails on a blank line: the counting loop finds no token, \<open>create_command\<close> with
  \<open>argc = 0\<close> allocates the one slot of the terminating \<^verbatim>\<open>NULL\<close>, and \<open>parse\<close>
  returns that command.
\<close>

theorem parse_blank_line_argc_zero:
  "parse example_h example_junk (Some '' '') = Some \<lparr>argc = 0, argv = [None]\<rparr>"
  by (simp add: parse_Some tokens_blank delimiters_def cstring_def NUL_def)

text \<open>
  C2, amended: \<open>parse\<close> of a line always returns a command; its \<open>argc\<close> is the number
  of tokens of the line, never negative, and at least one exactly when the line holds a
  character that is not a space, a tab or a newline. With no such character \<open>argc\<close> is
  0 and \<open>argv\<close> holds the terminating \<^verbatim>\<open>NULL\<close> only.
\<close>

theorem parse_argc_ge_one_iff:
  "\<exists>cmd. parse h junk (Some line) = Some cmd \<and> 0 \<le> argc cmd
     \<and> argc cmd = int (length (tokens delimiters (cstring line)))
     \<and> (1 \<le> argc cmd \<longleftrightarrow> (\<exists>c \<in> set (cstring line). c \<notin> set delimiters))
     \<and> (argc cmd = 0 \<longleftrightarrow> argv cmd = [None])"
proof -
  let ?toks = "tokens delimiters (cstring line)"
  have "1 \<le> int (length ?toks) \<longleftrightarrow> ?toks \<noteq> []"
    by (cases ?toks) simp_all
  also have "\<dots> \<longleftrightarrow> (\<exists>c \<in> set (cstring line). c \<notin> set delimiters)"
    by (auto simp: tokens_Nil_iff)
  finally show ?thesis
    by (simp add: parse_Some)
qed

subsection \<open>C3: the first directory that matches\<close>

text \<open>
  C3 says that resolution succeeds on the first directory \<open>d\<close> of the search path for
  which \<open>d/argv0\<close> exists and is a regular file. The code means to do that (its comments
  speak of constructing the full path, and of returning false when no directory holds
  the program), but it builds \<open>d/argv0\<close> with \<^verbatim>\<open>snprintf\<close> in a buffer of
  \<^verbatim>\<open>MAX_LINE_SIZE\<close> bytes and never tests whether the path fitted. So C3 does not hold
  of the code: when the search path is one directory whose name has at least
  \<^verbatim>\<open>MAX_LINE_SIZE\<close> characters, and the only regular file of the file system is
  \<open>argv0\<close> in that directory, \<open>find_full_path\<close> asks \<^verbatim>\<open>stat\<close> about the first
  \<^verbatim>\<open>MAX_LINE_SIZE - 1\<close> characters of the directory's name, finds nothing, and returns
  false with the command unchanged. This holds for every positive \<^verbatim>\<open>MAX_LINE_SIZE\<close>.
\<close>

theorem find_full_path_misses_long_directory:
  assumes a0: "slot c 0 = Some (Some a0)"
    and env: "getenv w ''PATH'' = Some dir"
    and nul: "NUL \<notin> set dir" and colon: "CHR '':'' \<notin> set dir"
    and pos: "0 < MAX_LINE_SIZE h"
    and long: "nat (MAX_LINE_SIZE h) \<le> length dir"
    and there: "stat w (dir @ ''/'' @ cstring a0) = Some Regular"
    and only: "\<forall>p. stat w p = Some Regular \<longrightarrow> p = dir @ ''/'' @ cstring a0"
  shows "segments CHR '':'' (cstring dir) = [dir]
       \<and> find_full_path h w (Some c) =
           (Return False, Some c, [Stat (take (nat (MAX_LINE_SIZE h) - 1) dir)])"
proof -
  from pos long have ne: "dir \<noteq> []" by auto
  from nul have cs: "cstring dir = dir" by (rule cstring_id)
  from ne colon have toks: "tokens '':'' (cstring dir) = [dir]"
    by (simp add: cs tokens_single)
  from long have cand: "candidate h a0 dir = take (nat (MAX_LINE_SIZE h) - 1) dir"
    by (simp add: candidate_eq [OF nul])
  have "length (take (nat (MAX_LINE_SIZE h) - 1) dir) < length (dir @ ''/'' @ cstring a0)"
    using pos long by simp
  then have "take (nat (MAX_LINE_SIZE h) - 1) dir \<noteq> dir @ ''/'' @ cstring a0"
    by (metis less_irrefl)
  with only have "\<not> matches h w a0 dir"
    by (auto simp: matches_stat cand)
  then show ?thesis
    using find_full_path_eq [OF a0 env, of h] toks
    by (simp add: cand tokens_segments [symmetric])
qed

theorem find_full_path_misses_long_directory_witness:
  "getenv long_dir_world ''PATH'' = Some long_dir
     \<and> slot example_cmd 0 = Some (Some ls_arg)
     \<and> stat long_dir_world (long_dir @ ''/'' @ cstring ls_arg) = Some Regular
     \<and> length long_dir = 4020
     \<and> list_all
          (\<lambda>n. find_full_path (example_h\<lparr>MAX_LINE_SIZE := int n\<rparr>) long_dir_world (Some example_cmd)
                 = (Return False, Some example_cmd, [Stat (take (n - 1) long_dir)]))
          [1..<4021]"
proof -
  have a0: "slot example_cmd 0 = Some (Some ls_arg)"
    by (simp add: slot_def example_cmd_def)
  have env: "getenv long_dir_world ''PATH'' = Some long_dir"
    by (simp add: long_dir_world_def)
  have ls: "cstring ls_arg = ''ls''"
    by code_simp
  have nul: "NUL \<notin> set long_dir" and colon: "CHR '':'' \<notin> set long_dir"
    by (simp_all add: long_dir_def long_name_def NUL_def)
  have len: "length long_dir = 4020"
    by (simp add: long_dir_def long_name_def length_concat sum_list_replicate)
  have there: "stat long_dir_world (long_dir @ ''/'' @ cstring ls_arg) = Some Regular"
    by (simp add: long_dir_world_def ls)
  have only: "\<forall>p. stat long_dir_world p = Some Regular \<longrightarrow>
      p = long_dir @ ''/'' @ cstring ls_arg"
    by (simp add: long_dir_world_def ls)
  have "find_full_path (example_h\<lparr>MAX_LINE_SIZE := int n\<rparr>) long_dir_world (Some example_cmd)
      = (Return False, Some example_cmd, [Stat (take (n - 1) long_dir)])"
    if "n \<in> set [1..<4021]" for n
  proof -
    from that have pos: "0 < MAX_LINE_SIZE (example_h\<lparr>MAX_LINE_SIZE := int n\<rparr>)"
      and long: "nat (MAX_LINE_SIZE (example_h\<lparr>MAX_LINE_SIZE := int n\<rparr>)) \<le> length long_dir"
      by (simp_all add: len)
    from find_full_path_misses_long_directory [OF a0 env nul colon pos long there only]
    show ?thesis by simp
  qed
  then have "list_all
      (\<lambda>n. find_full_path (example_h\<lparr>MAX_LINE_SIZE := int n\<rparr>) long_dir_world (Some example_cmd)
             = (Return False, Some example_cmd, [Stat (take (n - 1) long_dir)]))
      [1..<4021]"
    unfolding list_all_iff by blast
  with a0 env there len show ?thesis by simp
qed

subsection \<open>C4: the wait status decides between SUCCESS and ERROR\<close>

text \<open>
  C4: for a command that is no builtin and was resolved, in the parent (\<^verbatim>\<open>fork\<close>
  returned a positive pid) and after \<^verbatim>\<open>waitpid\<close> succeeded with a status, \<open>execute\<close>
  returns \<^verbatim>\<open>SUCCESS\<close> when the status is a normal exit with code 0 and \<^verbatim>\<open>ERROR\<close> for
  every other status, whatever its exit code or signal number: the result depends on
  the status only through that test. As the two constants of \<^verbatim>\<open>shell.h\<close> differ, the
  result is \<^verbatim>\<open>SUCCESS\<close> if and only if the child exited normally with code 0.
\<close>

theorem execute_wait_status:
  assumes nb: "is_builtin (Some c) = Return False"
    and found: "find_full_path h w (Some c) = (Return True, Some c', evs)"
    and pid: "0 < fork w"
    and st: "waitpid w (fork w) = Some status"
  shows "execute h w (Some c) =
           (Return (if status = Exited 0 then SUCCESS h else ERROR h), Some c',
            evs @ [Fork, Waitpid (fork w)])
       \<and> (SUCCESS h \<noteq> ERROR h \<longrightarrow>
            (fst (execute h w (Some c)) = Return (SUCCESS h) \<longleftrightarrow> status = Exited 0)
            \<and> (fst (execute h w (Some c)) = Return (ERROR h) \<longleftrightarrow> status \<noteq> Exited 0))
       \<and> (status = Exited 0 \<longleftrightarrow> WIFEXITED status \<and> WEXITSTATUS status = 0)"
proof -
  from nb obtain a0 where a0: "slot c 0 = Some (Some a0)"
    by (auto dest: is_builtin_Return)
  from found obtain path where path: "slot c' 0 = Some (Some path)"
    by (auto dest: find_full_path_True_slot)
  have e: "execute h w (Some c) =
      (Return (if status = Exited 0 then SUCCESS h else ERROR h), Some c',
       evs @ [Fork, Waitpid (fork w)])"
    by (simp add: execute_def a0 nb found path spawn_and_wait_parent [OF pid st])
  have "status = Exited 0 \<longleftrightarrow> WIFEXITED status \<and> WEXITSTATUS status = 0"
    by (cases status) auto
  with e show ?thesis by auto
qed

theorem execute_wait_status_witness:
  "execute example_h example_world (Some example_cmd) =
     (Return 0, Some \<lparr>argc = 1, argv = [Some (''/usr/bin/ls'' @ [NUL]), None]\<rparr>,
      [Stat ''/bin/ls'', Stat ''/usr/bin/ls'', Fork, Waitpid 7])
   \<and> fst (execute example_h (example_world\<lparr>waitpid := \<lambda>pid. Some (Signaled 9)\<rparr>) (Some example_cmd))
       = Return (- 1)"
proof -
  have nb: "is_builtin (Some example_cmd) = Return False"
    by code_simp
  have pid: "0 < fork example_world" and st: "waitpid example_world (fork example_world) = Some (Exited 0)"
    by (simp_all add: example_world_def)
  let ?w = "example_world\<lparr>waitpid := \<lambda>pid. Some (Signaled 9)\<rparr>"
  have found': "find_full_path example_h ?w (Some example_cmd) =
     (Return True, Some \<lparr>argc = 1, argv = [Some (''/usr/bin/ls'' @ [NUL]), None]\<rparr>,
      [Stat ''/bin/ls'', Stat ''/usr/bin/ls''])"
    by code_simp
  have pid': "0 < fork ?w" and st': "waitpid ?w (fork ?w) = Some (Signaled 9)"
    by (simp_all add: example_world_def)
  from execute_wait_status [OF nb example_find_full_path pid st]
    execute_wait_status [OF nb found' pid' st']
  show ?thesis by (simp add: example_h_def example_world_def)
qed

subsection \<open>C5: a failed resolution changes nothing\<close>

text \<open>
  C5 says that resolution reports failure and leaves argument 0 unchanged when the
  search-path variable is unset and when no directory \<open>d\<close> of the search path holds a
  regular file \<open>d/argv0\<close>. The first half holds (\<open>find_full_path_no_PATH\<close>), and a
  resolution that returns false leaves the command as it was
  (\<open>find_full_path_False_unchanged\<close>). The second half does not hold of the code, by the
  defect of C3: the path is cut to \<^verbatim>\<open>MAX_LINE_SIZE - 1\<close> characters unnoticed. When the
  search path is one entry of at least that many characters, no file \<open>argv0\<close> is in the
  directory it names, and the first \<^verbatim>\<open>MAX_LINE_SIZE - 1\<close> characters of the entry name
  a regular file, \<open>find_full_path\<close> returns true and rewrites argument 0 to that file,
  which is in no directory of the search path.
\<close>

theorem find_full_path_resolves_to_cut_path:
  assumes a0: "slot c 0 = Some (Some a0)"
    and env: "getenv w ''PATH'' = Some dir"
    and nul: "NUL \<notin> set dir" and colon: "CHR '':'' \<notin> set dir"
    and size: "1 < MAX_LINE_SIZE h"
    and long: "nat (MAX_LINE_SIZE h) - 1 \<le> length dir"
    and none: "stat w (dir @ ''/'' @ cstring a0) = None"
    and cut: "stat w (take (nat (MAX_LINE_SIZE h) - 1) dir) = Some Regular"
  shows "segments CHR '':'' (cstring dir) = [dir]
       \<and> find_full_path h w (Some c) =
           (Return True,
            Some (c\<lparr>argv := (argv c)[0 := Some (take (nat (MAX_LINE_SIZE h) - 1) dir @ [NUL])]\<rparr>),
            [Stat (take (nat (MAX_LINE_SIZE h) - 1) dir)])"
proof -
  let ?cut = "take (nat (MAX_LINE_SIZE h) - 1) dir"
  from size long have ne: "dir \<noteq> []" by auto
  from nul have cs: "cstring dir = dir" by (rule cstring_id)
  from ne colon have toks: "tokens '':'' (cstring dir) = [dir]"
    by (simp add: cs tokens_single)
  from long have cand: "candidate h a0 dir = ?cut"
    by (simp add: candidate_eq [OF nul])
  with cut have "matches h w a0 dir"
    by (simp add: matches_stat)
  then have r: "find_full_path h w (Some c) =
      (Return True, Some (c\<lparr>argv := (argv c)[0 := Some (?cut @ [NUL])]\<rparr>), [Stat ?cut])"
    using find_full_path_eq [OF a0 env, of h] by (simp add: toks cand tried_Cons)
  from toks have "segments CHR '':'' (cstring dir) = [dir]"
    by (simp add: tokens_segments [symmetric])
  with r show ?thesis by simp
qed

theorem find_full_path_resolves_to_cut_path_witness:
  "getenv cut_world ''PATH'' = Some ''/t/abcdefghijklmn''
     \<and> segments CHR '':'' ''/t/abcdefghijklmn'' = [''/t/abcdefghijklmn'']
     \<and> stat cut_world (''/t/abcdefghijklmn'' @ ''/'' @ cstring ls_arg) = None
     \<and> find_full_path example_h cut_world (Some example_cmd) =
         (Return True, Some \<lparr>argc = 1, argv = [Some (str_buf ''/t/abcdefghijkl''), None]\<rparr>,
          [Stat ''/t/abcdefghijkl''])"
proof -
  have a0: "slot example_cmd 0 = Some (Some ls_arg)"
    by (simp add: slot_def example_cmd_def)
  have env: "getenv cut_world ''PATH'' = Some ''/t/abcdefghijklmn''"
    by (simp add: cut_world_def)
  have nul: "NUL \<notin> set ''/t/abcdefghijklmn''" and colon: "CHR '':'' \<notin> set ''/t/abcdefghijklmn''"
    by (simp_all add: NUL_def)
  have size: "1 < MAX_LINE_SIZE example_h"
    and long: "nat (MAX_LINE_SIZE example_h) - 1 \<le> length ''/t/abcdefghijklmn''"
    by (simp_all add: example_h_def)
  have ls: "cstring ls_arg = ''ls''"
    by code_simp
  have none: "stat cut_world (''/t/abcdefghijklmn'' @ ''/'' @ cstring ls_arg) = None"
    by (simp add: cut_world_def ls)
  have t: "take (nat (MAX_LINE_SIZE example_h) - 1) ''/t/abcdefghijklmn'' = ''/t/abcdefghijkl''"
    by (simp add: example_h_def)
  have cut: "stat cut_world (take (nat (MAX_LINE_SIZE example_h) - 1) ''/t/abcdefghijklmn'')
      = Some Regular"
    unfolding t by (simp add: cut_world_def)
  have c: "cstring ''/t/abcdefghijklmn'' = ''/t/abcdefghijklmn''"
    using nul by (rule cstring_id)
  from find_full_path_resolves_to_cut_path [OF a0 env nul colon size long none cut]
  show ?thesis
    unfolding t c using env none by (simp add: example_cmd_def str_buf_def)
qed

subsection \<open>C6: a token is stored truncated and terminated\<close>

text \<open>
  C6: token \<open>i\<close> of the line is stored in slot \<open>i\<close>, a buffer of \<^verbatim>\<open>MAX_ARG_LEN\<close>
  bytes. After \<open>parse\<close> the buffer still has exactly that many bytes (nothing was
  written past its end), its last byte is the terminator, and the string in it is the
  first \<^verbatim>\<open>MAX_ARG_LEN - 1\<close> characters of the token, so it is shorter than the buffer.
  For a token longer than \<^verbatim>\<open>MAX_ARG_LEN\<close> the buffer is exactly those
  \<^verbatim>\<open>MAX_ARG_LEN - 1\<close> characters and the terminator. \<^verbatim>\<open>MAX_ARG_LEN\<close> is the size of
  an array, hence positive.
\<close>

theorem parse_stores_truncated:
  assumes pos: "0 < MAX_ARG_LEN h"
    and i: "i < length (tokens delimiters (cstring line))"
  shows "\<exists>cmd buf. parse h junk (Some line) = Some cmd \<and> argv cmd ! i = Some buf
           \<and> length buf = nat (MAX_ARG_LEN h)
           \<and> buf ! (nat (MAX_ARG_LEN h) - 1) = NUL
           \<and> cstring buf = take (nat (MAX_ARG_LEN h) - 1) (tokens delimiters (cstring line) ! i)
           \<and> strlen buf < nat (MAX_ARG_LEN h)
           \<and> (nat (MAX_ARG_LEN h) < length (tokens delimiters (cstring line) ! i) \<longrightarrow>
                buf = take (nat (MAX_ARG_LEN h) - 1) (tokens delimiters (cstring line) ! i) @ [NUL])"
proof -
  let ?tok = "tokens delimiters (cstring line) ! i"
  let ?m = "nat (MAX_ARG_LEN h) - 1"
  let ?buf = "store_arg h (new_arg h junk i) ?tok"
  from i have "?tok \<in> set (tokens delimiters (cstring line))" by simp
  then have nul: "NUL \<notin> set ?tok" by (rule tokens_NUL_free)
  from pos have M: "nat (MAX_ARG_LEN h) = Suc ?m" by simp
  have eq: "?buf = take ?m ?tok @ replicate (?m - length ?tok) NUL @ [NUL]"
    using pos length_new_arg nul by (rule store_arg_eq)
  have len: "length ?buf = nat (MAX_ARG_LEN h)"
    unfolding eq using M by simp
  have "length (take ?m ?tok @ replicate (?m - length ?tok) NUL) = ?m" by simp
  then have last: "?buf ! ?m = NUL"
    unfolding eq by (metis append.assoc nth_append_length)
  have str: "cstring ?buf = take ?m ?tok"
    unfolding eq using nul by (rule cstring_stored)
  have short: "strlen ?buf < nat (MAX_ARG_LEN h)"
    unfolding strlen_def str using M by simp
  have long: "nat (MAX_ARG_LEN h) < length ?tok \<longrightarrow> ?buf = take ?m ?tok @ [NUL]"
    unfolding eq by simp
  from parse_argv_nth [OF i, of h junk] len last str short long show ?thesis
    by blast
qed

theorem parse_stores_truncated_witness:
  "\<exists>cmd. parse example_h example_junk (Some ''echo hello-world'') = Some cmd
     \<and> argv cmd ! 1 = Some (''hello-w'' @ [NUL])"
proof -
  have t: "tokens delimiters (cstring ''echo hello-world'') = [''echo'', ''hello-world'']"
    by code_simp
  have "0 < MAX_ARG_LEN example_h" "nat (MAX_ARG_LEN example_h) = 8"
    by (simp_all add: example_h_def)
  with parse_stores_truncated [of example_h 1 "''echo hello-world''" example_junk] t
  show ?thesis by auto
qed

subsection \<open>C7: the argument count is the number of runs\<close>

text \<open>
  C7: for every line \<open>parse\<close> returns a command whose \<open>argc\<close> is the number of maximal
  runs of characters other than space, tab and newline; \<open>argv\<close> has one slot more, the
  terminating \<^verbatim>\<open>NULL\<close>. The tokens are those runs, in order: none is empty, and none
  holds a delimiter. The strings stored for them are not empty either, once
  \<^verbatim>\<open>MAX_ARG_LEN\<close> leaves room for one character.
\<close>

theorem parse_argc_runs:
  "\<exists>cmd. parse h junk (Some line) = Some cmd
     \<and> argc cmd = int (length (run_starts delimiters (cstring line)))
     \<and> int (length (argv cmd)) = argc cmd + 1
     \<and> tokens delimiters (cstring line) = runs delimiters (cstring line)
     \<and> (\<forall>t \<in> set (tokens delimiters (cstring line)). t \<noteq> [] \<and> set t \<inter> set delimiters = {})
     \<and> (2 \<le> MAX_ARG_LEN h \<longrightarrow>
          (\<forall>a \<in> set (butlast (argv cmd)). \<exists>buf. a = Some buf \<and> cstring buf \<noteq> []))"
proof -
  let ?toks = "tokens delimiters (cstring line)"
  have r: "?toks = runs delimiters (cstring line)"
    by (simp add: tokens_runs_after runs_runs_after)
  then have n: "length ?toks = length (run_starts delimiters (cstring line))"
    by (simp add: runs_def)
  have p: "\<forall>t \<in> set ?toks. t \<noteq> [] \<and> set t \<inter> set delimiters = {}"
    using tokens_props by blast
  have s: "\<exists>buf. a = Some buf \<and> cstring buf \<noteq> []"
    if M: "2 \<le> MAX_ARG_LEN h"
      and a: "a \<in> set (map (\<lambda>i. Some (store_arg h (new_arg h junk i) (?toks ! i))) [0..<length ?toks])"
    for a
  proof -
    from a obtain i where i: "i < length ?toks"
      and ai: "a = Some (store_arg h (new_arg h junk i) (?toks ! i))"
      by auto
    from M have pos: "0 < MAX_ARG_LEN h" by simp
    from i have "?toks ! i \<in> set ?toks" by simp
    then have "NUL \<notin> set (?toks ! i)" by (rule tokens_NUL_free)
    with pos
    have "cstring (store_arg h (new_arg h junk i) (?toks ! i)) = take (nat (MAX_ARG_LEN h) - 1) (?toks ! i)"
      by (rule cstring_store_arg)
    moreover from i p have "?toks ! i \<noteq> []" by simp
    moreover from M have "0 < nat (MAX_ARG_LEN h) - 1" by simp
    ultimately show ?thesis using ai by simp
  qed
  show ?thesis
    using r n p s by (simp add: parse_Some butlast_append)
qed

theorem parse_argc_runs_witness:
  "\<exists>cmd. parse example_h example_junk (Some ''  ls  -l /tmp '') = Some cmd \<and> argc cmd = 3
     \<and> tokens delimiters ''  ls  -l /tmp '' = [''ls'', ''-l'', ''/tmp'']
     \<and> (\<forall>a \<in> set (butlast (argv cmd)). \<exists>buf. a = Some buf \<and> cstring buf \<noteq> [])"
proof -
  have c: "cstring ''  ls  -l /tmp '' = ''  ls  -l /tmp ''"
    by code_simp
  have r: "runs delimiters ''  ls  -l /tmp '' = [''ls'', ''-l'', ''/tmp'']"
    by code_simp
  have n: "run_starts delimiters ''  ls  -l /tmp '' = [2, 6, 9]"
    by code_simp
  have m: "2 \<le> MAX_ARG_LEN example_h"
    by (simp add: example_h_def)
  from parse_argc_runs [of example_h example_junk "''  ls  -l /tmp ''"]
  obtain cmd where "parse example_h example_junk (Some ''  ls  -l /tmp '') = Some cmd"
    and "argc cmd = int (length (run_starts delimiters (cstring ''  ls  -l /tmp '')))"
    and "tokens delimiters (cstring ''  ls  -l /tmp '') = runs delimiters (cstring ''  ls  -l /tmp '')"
    and "2 \<le> MAX_ARG_LEN example_h \<longrightarrow>
          (\<forall>a \<in> set (butlast (argv cmd)). \<exists>buf. a = Some buf \<and> cstring buf \<noteq> [])"
    by blast
  with m show ?thesis
    by (auto simp: c r n)
qed

subsection \<open>C8: cd with one argument\<close>

text \<open>
  C8: for a well-formed command whose argument 0 is \<^verbatim>\<open>cd\<close> and whose \<open>argc\<close> is 2,
  \<open>do_builtin\<close> calls \<^verbatim>\<open>chdir\<close> with argument 1 and returns what \<^verbatim>\<open>chdir\<close> returns:
  0 when the directory was changed, -1 when it was not; \<open>execute\<close> passes that on.
  These are \<^verbatim>\<open>SUCCESS\<close> and \<^verbatim>\<open>ERROR\<close> when \<^verbatim>\<open>shell.h\<close> defines them as 0 and -1,
  the values of \<^verbatim>\<open>chdir\<close>.
\<close>

theorem do_builtin_cd_one_argument:
  assumes wf: "wf_command c" and a0: "slot c 0 = Some (Some a0)" and cd: "cstring a0 = ''cd''"
    and two: "argc c = 2"
  shows "\<exists>a1. slot c 1 = Some (Some a1)
           \<and> do_builtin h w (Some c) =
               (Return (if chdir_ok w (cstring a1) then 0 else - 1), [Chdir (Some (cstring a1))])
           \<and> execute h w (Some c) =
               (Return (if chdir_ok w (cstring a1) then 0 else - 1), Some c,
                [Chdir (Some (cstring a1))])
           \<and> (SUCCESS h = 0 \<and> ERROR h = - 1 \<longrightarrow>
                do_builtin h w (Some c) =
                  (Return (if chdir_ok w (cstring a1) then SUCCESS h else ERROR h),
                   [Chdir (Some (cstring a1))]))"
proof -
  from wf two obtain a1 where a1: "slot c 1 = Some (Some a1)"
    using wf_command_slot [of c 1] by auto
  from cd have ne: "\<not> strcmp_eq a0 ''exit''" and b: "strcmp_eq a0 ''cd''"
    by (simp_all add: strcmp_eq_def cstring_literal_cd cstring_literal_exit)
  have d: "do_builtin h w (Some c) =
      (Return (if chdir_ok w (cstring a1) then 0 else - 1), [Chdir (Some (cstring a1))])"
    by (simp add: do_builtin_def a0 ne two a1 [unfolded One_nat_def] chdir_def)
  have "is_builtin (Some c) = Return True"
    by (simp add: is_builtin_def a0 b)
  then have "execute h w (Some c) =
      (Return (if chdir_ok w (cstring a1) then 0 else - 1), Some c, [Chdir (Some (cstring a1))])"
    by (simp add: execute_def a0 d)
  with a1 d show ?thesis by auto
qed

theorem do_builtin_cd_one_argument_witness:
  "do_builtin example_h example_world (Some cd_cmd) = (Return (SUCCESS example_h), [Chdir (Some ''/tmp'')])
   \<and> do_builtin example_h (example_world\<lparr>chdir_ok := \<lambda>path. False\<rparr>) (Some cd_cmd)
       = (Return (ERROR example_h), [Chdir (Some ''/tmp'')])"
proof -
  have wf: "wf_command cd_cmd" by code_simp
  have a0: "slot cd_cmd 0 = Some (Some (str_buf ''cd''))"
    and a1: "slot cd_cmd 1 = Some (Some (str_buf ''/tmp''))"
    by (simp_all add: slot_def cd_cmd_def)
  have cd: "cstring (str_buf ''cd'') = ''cd''" and tmp: "cstring (str_buf ''/tmp'') = ''/tmp''"
    by (simp_all add: cstring_str_buf NUL_def)
  have two: "argc cd_cmd = 2" by (simp add: cd_cmd_def)
  have h: "SUCCESS example_h = 0 \<and> ERROR example_h = - 1" by (simp add: example_h_def)
  let ?w = "example_world\<lparr>chdir_ok := \<lambda>path. False\<rparr>"
  from do_builtin_cd_one_argument [OF wf a0 cd two, of example_h example_world] h
  have "do_builtin example_h example_world (Some cd_cmd) =
      (Return (if chdir_ok example_world ''/tmp'' then SUCCESS example_h else ERROR example_h),
       [Chdir (Some ''/tmp'')])"
    unfolding a1 by (auto simp: tmp)
  moreover
  from do_builtin_cd_one_argument [OF wf a0 cd two, of example_h ?w] h
  have "do_builtin example_h ?w (Some cd_cmd) =
      (Return (if chdir_ok ?w ''/tmp'' then SUCCESS example_h else ERROR example_h),
       [Chdir (Some ''/tmp'')])"
    unfolding a1 by (auto simp: tmp)
  ultimately show ?thesis
    by (simp add: example_world_def)
qed

subsection \<open>C9: exit ignores its arguments\<close>

text \<open>
  C9: for every command whose argument 0 is \<^verbatim>\<open>exit\<close>, whatever its \<open>argc\<close> and its
  other arguments, \<open>do_builtin\<close> ends the process with status \<^verbatim>\<open>SUCCESS\<close>: it does not
  return, and it prints nothing. \<open>execute\<close> classifies the command as a builtin and
  ends the same way.
\<close>

theorem do_builtin_exit:
  assumes a0: "slot c 0 = Some (Some a0)" and ex: "cstring a0 = ''exit''"
  shows "do_builtin h w (Some c) = (Exit (SUCCESS h), [])
       \<and> is_builtin (Some c) = Return True
       \<and> execute h w (Some c) = (Exit (SUCCESS h), Some c, [])"
proof -
  from ex have e: "strcmp_eq a0 ''exit''"
    by (simp add: strcmp_eq_def cstring_literal_exit)
  have d: "do_builtin h w (Some c) = (Exit (SUCCESS h), [])"
    by (simp add: do_builtin_def a0 e)
  have b: "is_builtin (Some c) = Return True"
    by (simp add: is_builtin_def a0 e)
  then have "execute h w (Some c) = (Exit (SUCCESS h), Some c, [])"
    by (simp add: execute_def a0 d)
  with d b show ?thesis by simp
qed

theorem do_builtin_exit_witness:
  "do_builtin example_h example_world (Some exit_cmd) = (Exit 0, [])
   \<and> execute example_h example_world (Some exit_cmd) = (Exit 0, Some exit_cmd, [])
   \<and> argc exit_cmd = 3"
proof -
  have a0: "slot exit_cmd 0 = Some (Some (str_buf ''exit''))"
    by (simp add: slot_def exit_cmd_def)
  have ex: "cstring (str_buf ''exit'') = ''exit''"
    by (simp add: cstring_str_buf NUL_def)
  from do_builtin_exit [OF a0 ex, of example_h example_world]
  show ?thesis by (simp add: example_h_def exit_cmd_def)
qed

subsection \<open>C10: empty entries of the search path are skipped\<close>

text \<open>
  C10: the directories the loop of \<open>find_full_path\<close> draws from the search path with
  \<open>strtok\<close> are exactly the non-empty colon-separated segments of the path, in order:
  a leading, trailing or doubled colon yields no directory, and no empty one. The
  \<^verbatim>\<open>stat\<close> calls of a resolution are those for the paths built for these directories,
  in order, up to and including the first that matches, and for all of them when the
  resolution fails.
\<close>

theorem find_full_path_skips_empty_entries:
  assumes a0: "slot c 0 = Some (Some a0)" and env: "getenv w ''PATH'' = Some path_env"
    and size: "0 < MAX_LINE_SIZE h"
  shows "tokens '':'' (cstring path_env) = segments CHR '':'' (cstring path_env)
       \<and> [] \<notin> set (segments CHR '':'' (cstring path_env))
       \<and> stat_calls (snd (snd (find_full_path h w (Some c)))) =
           map (candidate h a0) (tried h w a0 (segments CHR '':'' (cstring path_env)))
       \<and> (fst (find_full_path h w (Some c)) = Return False \<longrightarrow>
            tried h w a0 (segments CHR '':'' (cstring path_env)) =
              segments CHR '':'' (cstring path_env))
       \<and> (\<forall>d \<in> set (segments CHR '':'' (cstring path_env)).
            candidate h a0 d = take (nat (MAX_LINE_SIZE h) - 1) (d @ ''/'' @ cstring a0))"
proof -
  let ?dirs = "segments CHR '':'' (cstring path_env)"
  note eq = find_full_path_eq [OF a0 env, of h, unfolded tokens_segments]
  have t: "tokens '':'' (cstring path_env) = ?dirs"
    by (rule tokens_segments)
  have e: "[] \<notin> set ?dirs"
    by (simp add: segments_def)
  have none: "tried h w a0 ?dirs = ?dirs" if "find (matches h w a0) ?dirs = None"
  proof -
    from that have "\<And>d. d \<in> set ?dirs \<Longrightarrow> \<not> matches h w a0 d"
      by (simp add: find_None_iff)
    then show ?thesis
      by (simp add: tried_def takeWhile_eq_all_conv [THEN iffD2])
  qed
  have s: "stat_calls (snd (snd (find_full_path h w (Some c)))) =
      map (candidate h a0) (tried h w a0 ?dirs)"
    using eq none by (cases "find (matches h w a0) ?dirs") (simp_all add: stat_calls_map_Stat)
  have f: "fst (find_full_path h w (Some c)) = Return False \<longrightarrow> tried h w a0 ?dirs = ?dirs"
    using eq none by (cases "find (matches h w a0) ?dirs") simp_all
  have cand: "\<forall>d \<in> set ?dirs.
      candidate h a0 d = take (nat (MAX_LINE_SIZE h) - 1) (d @ ''/'' @ cstring a0)"
    by (intro ballI candidate_eq segments_NUL_free)
  from t e s f cand show ?thesis by (intro conjI)
qed

theorem find_full_path_skips_empty_entries_witness:
  "tokens '':'' (cstring '':/bin::/usr/bin:'') = [''/bin'', ''/usr/bin'']
     \<and> stat_calls (snd (snd (find_full_path example_h example_world (Some nosuch_cmd))))
         = [''/bin/xyz'', ''/usr/bin/xyz'']"
proof -
  have a0: "slot nosuch_cmd 0 = Some (Some (str_buf ''xyz''))"
    by (simp add: slot_def nosuch_cmd_def)
  have env: "getenv example_world ''PATH'' = Some '':/bin::/usr/bin:''"
    by (simp add: example_world_def)
  have c: "candidate example_h (str_buf ''xyz'') ''/bin'' = ''/bin/xyz''"
    "candidate example_h (str_buf ''xyz'') ''/usr/bin'' = ''/usr/bin/xyz''"
    by code_simp+
  have size: "0 < MAX_LINE_SIZE example_h"
    by (simp add: example_h_def)
  from find_full_path_skips_empty_entries [OF a0 env size]
  show ?thesis
    by (simp add: example_segments tried_Cons nosuch_matches c tried_def)
qed

end
